theory Spec2Isabelle
  imports Complex_Main
begin

section \<open>Kernel Universe: the simulation engine\<close>

text \<open>
  A shallow embedding of \<^verbatim>\<open>kernel_universe/simulation.py\<close> and of the parts of
  \<^verbatim>\<open>kernel_universe/config.py\<close> it reads. Python's unbounded integers are \<^typ>\<open>int\<close>;
  its floats are modelled by the exact field \<^typ>\<open>real\<close>, so every statement about
  catalyst mass is a statement of exact arithmetic and says nothing about rounding.
\<close>

subsection \<open>Configuration values read by the engine\<close>

text \<open>
  The engine reads module attributes \<^verbatim>\<open>config.NAME\<close> at the moment it runs. Every
  function below takes the values it reads as a record, so a change made by
  \<^verbatim>\<open>set_parameter\<close> between two calls is a different record at the second call.
\<close>

record config =
  GRID_SIZE :: int
  C_THRESH :: real
  EMIT_FRACTION :: real
  KERNEL_3x3 :: "real list list"
  ADVECT_ALPHA :: real
  T_MIN :: real
  T_MAX :: real
  TAU_TEMP :: int
  TAU_REFRACT :: int
  SPAWN_S :: int
  RNG_SEED :: int
  INITIAL_CORES :: int

definition default_config :: config where
  "default_config =
     \<lparr> GRID_SIZE = 100, C_THRESH = 0.2, EMIT_FRACTION = 0.6,
       KERNEL_3x3 = [[0.05, 0.10, 0.05], [0.10, 0.40, 0.10], [0.05, 0.10, 0.05]],
       ADVECT_ALPHA = 0.05, T_MIN = 0.40, T_MAX = 0.55,
       TAU_TEMP = 8, TAU_REFRACT = 12, SPAWN_S = 2, RNG_SEED = 42, INITIAL_CORES = 10 \<rparr>"

subsection \<open>Class \<^verbatim>\<open>Core\<close>\<close>

record core =
  core_x :: int
  core_y :: int
  temp_exposure_count :: int
  bloomed :: bool
  refractory_countdown :: int
  total_blooms :: int
  last_bloom_tick :: int

text \<open>\<^verbatim>\<open>Core.__init__(x, y)\<close>.\<close>

definition Core :: "int \<Rightarrow> int \<Rightarrow> core" where
  "Core x y =
     \<lparr> core_x = x, core_y = y, temp_exposure_count = 0, bloomed = False,
       refractory_countdown = 0, total_blooms = 0, last_bloom_tick = - 1 \<rparr>"

text \<open>
  \<^verbatim>\<open>Core.update(tick, temperature, catalyst, emit_mode)\<close> mutates the core and returns a
  boolean; the model returns the boolean together with the core after the call. The
  refractory branch returns before the statement that clears \<^verbatim>\<open>bloomed\<close>.
\<close>

definition update :: "config \<Rightarrow> core \<Rightarrow> int \<Rightarrow> real \<Rightarrow> real \<Rightarrow> bool \<Rightarrow> bool \<times> core" where
  "update cfg c tick temperature catalyst emit_mode =
     (if refractory_countdown c > 0 then
        (False, c\<lparr>refractory_countdown := refractory_countdown c - 1\<rparr>)
      else
        let c1 = c\<lparr>bloomed := False\<rparr>;
            c2 = (if T_MIN cfg \<le> temperature \<and> temperature \<le> T_MAX cfg
                  then c1\<lparr>temp_exposure_count := temp_exposure_count c1 + 1\<rparr>
                  else c1\<lparr>temp_exposure_count := 0\<rparr>);
            c3 = (if emit_mode \<and> catalyst \<ge> C_THRESH cfg \<and> temp_exposure_count c2 \<ge> TAU_TEMP cfg
                  then c2\<lparr>bloomed := True,
                          total_blooms := total_blooms c2 + 1,
                          last_bloom_tick := tick,
                          refractory_countdown := TAU_REFRACT cfg,
                          temp_exposure_count := 0\<rparr>
                  else c2)
        in (bloomed c3, c3))"

subsection \<open>Errors\<close>

text \<open>
  The exceptions the engine can raise on the paths modelled here: numpy's
  \<^verbatim>\<open>ValueError\<close> (negative dimensions, \<^verbatim>\<open>randint\<close> with an empty range, shapes
  that cannot be broadcast), \<^verbatim>\<open>IndexError\<close> (a cell read outside the array),
  Python's \<^verbatim>\<open>ZeroDivisionError\<close> (\<^verbatim>\<open>% 0\<close>), and the \<^verbatim>\<open>TypeError\<close> and
  \<^verbatim>\<open>AttributeError\<close> that \<^verbatim>\<open>setattr\<close> raises on a module attribute that cannot be
  rebound. A computation yields \<open>Some (Inr v)\<close> when it returns \<open>v\<close>,
  \<open>Some (Inl e)\<close> when it raises \<open>e\<close>, and \<open>None\<close> when it does not return.
\<close>

datatype error = ValueError | IndexError | ZeroDivisionError | TypeError | AttributeError

subsection \<open>Arrays\<close>

text \<open>
  A two-dimensional numpy array is a list of rows, addressed \<open>[row, col]\<close>. Whole-array
  operations are modelled on arrays of equal shape, which is what \<^verbatim>\<open>reset\<close> builds
  (three \<open>GRID_SIZE \<times> GRID_SIZE\<close> arrays); the theorems state that shape as
  \<open>square\<close>. Reads of a single cell are checked as numpy checks them.
\<close>

type_synonym grid = "real list list"

definition square :: "nat \<Rightarrow> grid \<Rightarrow> bool" where
  "square n g \<longleftrightarrow> length g = n \<and> (\<forall>row \<in> set g. length row = n)"

text \<open>\<^verbatim>\<open>np.sum(a)\<close>.\<close>

definition grid_sum :: "grid \<Rightarrow> real" where
  "grid_sum g = sum_list (map sum_list g)"

text \<open>\<^verbatim>\<open>np.zeros((n, m))\<close>.\<close>

definition zeros :: "nat \<Rightarrow> nat \<Rightarrow> grid" where
  "zeros n m = replicate n (replicate m 0)"

text \<open>\<^verbatim>\<open>a + b\<close> and \<^verbatim>\<open>a - b\<close> on arrays of one shape, and \<^verbatim>\<open>a * f\<close> for a scalar.\<close>

definition grid_add :: "grid \<Rightarrow> grid \<Rightarrow> grid" where
  "grid_add a b = map2 (map2 (+)) a b"

definition grid_sub :: "grid \<Rightarrow> grid \<Rightarrow> grid" where
  "grid_sub a b = map2 (map2 (-)) a b"

definition grid_scale :: "grid \<Rightarrow> real \<Rightarrow> grid" where
  "grid_scale a f = map (map (\<lambda>v. v * f)) a"

text \<open>
  \<^verbatim>\<open>np.roll(a, 1, axis=1)\<close>: in every row the value of column \<open>j\<close> moves to column
  \<open>(j + 1) mod n\<close>, so the last value comes first.
\<close>

definition roll_row :: "'a list \<Rightarrow> 'a list" where
  "roll_row xs = (if xs = [] then [] else last xs # butlast xs)"

definition roll_axis1 :: "grid \<Rightarrow> grid" where
  "roll_axis1 a = map roll_row a"

text \<open>
  \<^verbatim>\<open>a[y, x]\<close> for Python integers: an index \<open>k\<close> of an axis of size \<open>n\<close> is valid
  when \<open>- n \<le> k < n\<close>, a negative one counting from the end; anything else raises
  \<^verbatim>\<open>IndexError\<close>.
\<close>

definition grid_at :: "grid \<Rightarrow> int \<Rightarrow> int \<Rightarrow> error + real" where
  "grid_at a y x =
     (let rows = int (length a) in
      if - rows \<le> y \<and> y < rows then
        (let row = a ! nat (y mod rows); cols = int (length row) in
         if - cols \<le> x \<and> x < cols then Inr (row ! nat (x mod cols)) else Inl IndexError)
      else Inl IndexError)"

subsection \<open>The random stream\<close>

text \<open>
  \<^verbatim>\<open>np.random.RandomState\<close> is a library the repository does not contain. Its
  generator is a parameter of the model: a type \<open>'r\<close> of generator states with the
  three operations the engine uses. \<open>seeded\<close> is \<^verbatim>\<open>RandomState(seed)\<close>, \<open>random1\<close>
  draws one float and \<open>randint1 lo hi\<close> one integer, each returning the advanced
  state. \<^verbatim>\<open>rng.random(n)\<close> and \<^verbatim>\<open>rng.random((n, m))\<close> fill their result in
  row-major order, one draw per cell.
\<close>

record 'r random_state =
  seeded :: "int \<Rightarrow> 'r"
  random1 :: "'r \<Rightarrow> real \<times> 'r"
  randint1 :: "int \<Rightarrow> int \<Rightarrow> 'r \<Rightarrow> int \<times> 'r"

text \<open>
  What the library documents of its draws: a float lies in \<open>[0, 1)\<close> and
  \<^verbatim>\<open>randint(lo, hi)\<close> lies in \<open>[lo, hi)\<close>.
\<close>

definition draws_in_range :: "'r random_state \<Rightarrow> bool" where
  "draws_in_range R \<longleftrightarrow>
     (\<forall>r. 0 \<le> fst (random1 R r) \<and> fst (random1 R r) < 1) \<and>
     (\<forall>lo hi r. lo < hi \<longrightarrow> lo \<le> fst (randint1 R lo hi r) \<and> fst (randint1 R lo hi r) < hi)"

fun random_vec :: "'r random_state \<Rightarrow> nat \<Rightarrow> 'r \<Rightarrow> real list \<times> 'r" where
  "random_vec R 0 r = ([], r)"
| "random_vec R (Suc n) r =
     (let (v, r1) = random1 R r; (vs, r2) = random_vec R n r1 in (v # vs, r2))"

fun random_grid :: "'r random_state \<Rightarrow> nat \<Rightarrow> nat \<Rightarrow> 'r \<Rightarrow> grid \<times> 'r" where
  "random_grid R 0 m r = ([], r)"
| "random_grid R (Suc n) m r =
     (let (row, r1) = random_vec R m r; (rows, r2) = random_grid R n m r1
      in (row # rows, r2))"

text \<open>\<^verbatim>\<open>rng.randint(lo, hi)\<close> raises \<^verbatim>\<open>ValueError\<close> when \<open>lo \<ge> hi\<close>.\<close>

definition randint :: "'r random_state \<Rightarrow> int \<Rightarrow> int \<Rightarrow> 'r \<Rightarrow> error + (int \<times> 'r)" where
  "randint R lo hi r = (if lo < hi then Inr (randint1 R lo hi r) else Inl ValueError)"

subsection \<open>Class \<^verbatim>\<open>KernelUniverseSimulation\<close>\<close>

text \<open>
  The attributes of a simulation object. \<open>sim_total_blooms\<close> is \<^verbatim>\<open>self.total_blooms\<close>
  (the name \<open>total_blooms\<close> is the core's counter) and \<open>start_time\<close> holds the reading
  of \<^verbatim>\<open>time.time()\<close> taken by \<^verbatim>\<open>reset\<close>, which is an input of the model.
\<close>

record 'r simulation =
  seed :: int
  rng :: 'r
  tick :: int
  temperature :: grid
  catalyst_upper :: grid
  catalyst_lower :: grid
  cores :: "core list"
  sim_total_blooms :: int
  bloom_locations :: "(int \<times> int \<times> int) list"
  start_time :: real

text \<open>The record \<^verbatim>\<open>step\<close> returns.\<close>

record step_stats =
  stats_tick :: int
  stats_emit_mode :: bool
  blooms_this_tick :: int
  stats_total_blooms :: int
  total_catalyst :: real

text \<open>
  \<^verbatim>\<open>initialize_cores\<close>: the inner \<^verbatim>\<open>while True\<close> draws positions until one is not
  yet taken. It has no bound, so it is a partial function: \<open>None\<close> is a loop that
  never finds a free position.
\<close>

partial_function (option) draw_free_position ::
  "'r random_state \<Rightarrow> config \<Rightarrow> (int \<times> int) set \<Rightarrow> 'r \<Rightarrow> (error + ((int \<times> int) \<times> 'r)) option"
where
  "draw_free_position R cfg positions r =
     (case randint R 0 (GRID_SIZE cfg) r of
        Inl e \<Rightarrow> Some (Inl e)
      | Inr (x, r1) \<Rightarrow>
          (case randint R 0 (GRID_SIZE cfg) r1 of
             Inl e \<Rightarrow> Some (Inl e)
           | Inr (y, r2) \<Rightarrow>
               if (x, y) \<notin> positions then Some (Inr ((x, y), r2))
               else draw_free_position R cfg positions r2))"

declare draw_free_position.simps [code]

fun initialize_cores ::
  "'r random_state \<Rightarrow> config \<Rightarrow> nat \<Rightarrow> (int \<times> int) set \<Rightarrow> core list \<Rightarrow> 'r
     \<Rightarrow> (error + (core list \<times> 'r)) option"
where
  "initialize_cores R cfg 0 positions cs r = Some (Inr (cs, r))"
| "initialize_cores R cfg (Suc n) positions cs r =
     (case draw_free_position R cfg positions r of
        None \<Rightarrow> None
      | Some (Inl e) \<Rightarrow> Some (Inl e)
      | Some (Inr ((x, y), r1)) \<Rightarrow>
          initialize_cores R cfg n (insert (x, y) positions) (cs @ [Core x y]) r1)"

text \<open>
  \<^verbatim>\<open>reset\<close>. The generator is the one the object already holds: \<^verbatim>\<open>reset\<close> draws
  from \<open>rng s\<close> and stores the advanced state; it does not seed. \<open>now\<close> is the
  clock reading. \<^verbatim>\<open>rng.random((n, n))\<close> raises \<^verbatim>\<open>ValueError\<close> for a negative \<open>n\<close>,
  and \<^verbatim>\<open>range(num_cores)\<close> is empty for a negative count.
\<close>

definition reset ::
  "'r random_state \<Rightarrow> config \<Rightarrow> real \<Rightarrow> 'r simulation \<Rightarrow> (error + 'r simulation) option"
where
  "reset R cfg now s =
     (if GRID_SIZE cfg < 0 then Some (Inl ValueError)
      else
        let n = nat (GRID_SIZE cfg);
            (temp, r1) = random_grid R n n (rng s);
            (upper, r2) = random_grid R n n r1
        in
          (case initialize_cores R cfg (nat (INITIAL_CORES cfg)) {} [] r2 of
             None \<Rightarrow> None
           | Some (Inl e) \<Rightarrow> Some (Inl e)
           | Some (Inr (cs, r3)) \<Rightarrow>
               Some (Inr (s\<lparr> tick := 0,
                              temperature := temp,
                              catalyst_upper := grid_scale upper 0.2,
                              catalyst_lower := zeros n n,
                              cores := cs,
                              rng := r3,
                              sim_total_blooms := 0,
                              bloom_locations := [],
                              start_time := now \<rparr>))))"

text \<open>
  \<^verbatim>\<open>__init__(seed=None)\<close>: choose the seed, create the generator, call \<^verbatim>\<open>reset\<close>.
  Before \<^verbatim>\<open>reset\<close> runs the object has only \<^verbatim>\<open>seed\<close> and \<^verbatim>\<open>rng\<close>; the other fields
  of the record passed to \<open>reset\<close> are placeholders that \<open>reset\<close> overwrites.
\<close>

definition construct ::
  "'r random_state \<Rightarrow> config \<Rightarrow> int option \<Rightarrow> real \<Rightarrow> (error + 'r simulation) option"
where
  "construct R cfg seed_arg now =
     (let sd = (case seed_arg of None \<Rightarrow> RNG_SEED cfg | Some v \<Rightarrow> v) in
      reset R cfg now
        \<lparr> seed = sd, rng = seeded R sd, tick = 0, temperature = [], catalyst_upper = [],
          catalyst_lower = [], cores = [], sim_total_blooms = 0, bloom_locations = [],
          start_time = 0 \<rparr>)"

text \<open>
  \<^verbatim>\<open>shift_temperature\<close>: roll every row one column to the right, then overwrite
  column 0 with \<^verbatim>\<open>rng.random(GRID_SIZE)\<close>. The right-hand side is evaluated first and
  raises \<^verbatim>\<open>ValueError\<close> for a negative size. The assignment to \<^verbatim>\<open>temperature[:, 0]\<close>
  raises \<^verbatim>\<open>IndexError\<close> on an array without a column 0. The drawn vector is then
  broadcast to the column: one value per row when there are as many values as rows,
  the same value in every row when there is a single value, and \<^verbatim>\<open>ValueError\<close>
  otherwise.
\<close>

definition shift_temperature ::
  "'r random_state \<Rightarrow> config \<Rightarrow> 'r simulation \<Rightarrow> error + 'r simulation"
where
  "shift_temperature R cfg s =
     (if GRID_SIZE cfg < 0 then Inl ValueError
      else
        let rolled = roll_axis1 (temperature s);
            (col, r1) = random_vec R (nat (GRID_SIZE cfg)) (rng s)
        in if rolled = [] \<or> hd rolled = [] then Inl IndexError
           else if length col = length rolled then
             Inr (s\<lparr>temperature := map2 (\<lambda>row v. row[0 := v]) rolled col, rng := r1\<rparr>)
           else if length col = 1 then
             Inr (s\<lparr>temperature := map (\<lambda>row. row[0 := hd col]) rolled, rng := r1\<rparr>)
           else Inl ValueError)"

text \<open>
  \<^verbatim>\<open>apply_convolution\<close>. \<open>wrap_padded a w p q\<close> is the element \<open>[p, q]\<close> of
  \<^verbatim>\<open>np.pad(a, w, mode='wrap')\<close>, the periodic extension of \<open>a\<close> by \<open>w\<close> cells on
  every side. The output starts as \<^verbatim>\<open>zeros_like(input_array)\<close> and the double loop
  fills the cells \<open>[i, j]\<close> with \<open>i, j < GRID_SIZE\<close> with the sum of the window
  \<^verbatim>\<open>padded[i:i+kh, j:j+kw]\<close> times the kernel.
\<close>

definition wrap_padded :: "grid \<Rightarrow> nat \<Rightarrow> nat \<Rightarrow> nat \<Rightarrow> real" where
  "wrap_padded a w p q =
     (let row = a ! nat ((int p - int w) mod int (length a))
      in row ! nat ((int q - int w) mod int (length row)))"

definition window_sum :: "grid \<Rightarrow> grid \<Rightarrow> nat \<Rightarrow> nat \<Rightarrow> nat \<Rightarrow> real" where
  "window_sum a kern w i j =
     sum_list (map (\<lambda>da.
        sum_list (map (\<lambda>db. wrap_padded a w (i + da) (j + db) * (kern ! da ! db))
                      [0..<length (hd kern)]))
        [0..<length kern])"

definition apply_convolution :: "config \<Rightarrow> grid \<Rightarrow> grid \<Rightarrow> grid" where
  "apply_convolution cfg input_array kern =
     (let pad_width = length kern div 2; n = nat (GRID_SIZE cfg) in
      map (\<lambda>i. map (\<lambda>j. if i < n \<and> j < n then window_sum input_array kern pad_width i j else 0)
                    [0..<length (input_array ! i)])
          [0..<length input_array])"

text \<open>\<^verbatim>\<open>advect_right\<close>.\<close>

definition advect_right :: "grid \<Rightarrow> real \<Rightarrow> grid" where
  "advect_right array alpha =
     (let shifted = roll_axis1 array
      in map2 (map2 (\<lambda>v sh. (1 - alpha) * v + alpha * sh)) array shifted)"

text \<open>\<^verbatim>\<open>a.fill(0)\<close>.\<close>

definition fill_zero :: "grid \<Rightarrow> grid" where
  "fill_zero a = map (map (\<lambda>_. 0)) a"

text \<open>
  \<^verbatim>\<open>spawn_new_cores(parent_x, parent_y, count)\<close>. Python's \<^verbatim>\<open>%\<close> on integers takes
  the sign of the divisor, as \<open>mod\<close> on \<^typ>\<open>int\<close> does, and raises for a zero divisor.
\<close>

fun spawn_new_cores ::
  "'r random_state \<Rightarrow> config \<Rightarrow> int \<Rightarrow> int \<Rightarrow> nat \<Rightarrow> 'r simulation \<Rightarrow> error + 'r simulation"
where
  "spawn_new_cores R cfg parent_x parent_y 0 s = Inr s"
| "spawn_new_cores R cfg parent_x parent_y (Suc count) s =
     (case randint R (- 5) 6 (rng s) of
        Inl e \<Rightarrow> Inl e
      | Inr (dx, r1) \<Rightarrow>
          (case randint R (- 5) 6 r1 of
             Inl e \<Rightarrow> Inl e
           | Inr (dy, r2) \<Rightarrow>
               if GRID_SIZE cfg = 0 then Inl ZeroDivisionError
               else
                 let new_x = (parent_x + dx) mod GRID_SIZE cfg;
                     new_y = (parent_y + dy) mod GRID_SIZE cfg
                 in spawn_new_cores R cfg parent_x parent_y count
                      (s\<lparr>rng := r2, cores := cores s @ [Core new_x new_y]\<rparr>)))"

text \<open>
  The body of the loop \<^verbatim>\<open>for core in self.cores\<close> of \<^verbatim>\<open>step\<close>, for the core at
  index \<open>i\<close>: read the two fields under the core, update the core in place, and on
  a bloom count it, log it and spawn. It returns \<^verbatim>\<open>did_bloom\<close> and the simulation.
\<close>

definition core_iteration ::
  "'r random_state \<Rightarrow> config \<Rightarrow> bool \<Rightarrow> nat \<Rightarrow> 'r simulation \<Rightarrow> error + (bool \<times> 'r simulation)"
where
  "core_iteration R cfg emit_mode i s =
     (let c = cores s ! i; x = core_x c; y = core_y c in
      case grid_at (temperature s) y x of
        Inl e \<Rightarrow> Inl e
      | Inr temperature_at_core \<Rightarrow>
          (case grid_at (catalyst_upper s) y x of
             Inl e \<Rightarrow> Inl e
           | Inr catalyst_at_core \<Rightarrow>
               (let (did_bloom, c') =
                      update cfg c (tick s) temperature_at_core catalyst_at_core emit_mode;
                    s1 = s\<lparr>cores := (cores s)[i := c']\<rparr>
                in if did_bloom then
                     (let s2 = s1\<lparr>sim_total_blooms := sim_total_blooms s1 + 1,
                                   bloom_locations := bloom_locations s1 @ [(x, y, tick s1)]\<rparr>
                      in if SPAWN_S cfg > 0 then
                           (case spawn_new_cores R cfg x y (nat (SPAWN_S cfg)) s2 of
                              Inl e \<Rightarrow> Inl e
                            | Inr s3 \<Rightarrow> Inr (True, s3))
                         else Inr (True, s2))
                   else Inr (False, s1))))"

text \<open>
  The loop itself. Python's list iterator holds an index and compares it with the
  current length of the list before every iteration, so the loop runs over
  \<^verbatim>\<open>self.cores\<close> as it grows: the cores that \<^verbatim>\<open>spawn_new_cores\<close> appends are visited
  later in the same loop. Nothing bounds the number of iterations, so the loop is a
  partial function.
\<close>

partial_function (option) update_cores ::
  "'r random_state \<Rightarrow> config \<Rightarrow> bool \<Rightarrow> nat \<Rightarrow> 'r simulation \<Rightarrow> int
     \<Rightarrow> (error + ('r simulation \<times> int)) option"
where
  "update_cores R cfg emit_mode i s blooms =
     (if i < length (cores s) then
        (case core_iteration R cfg emit_mode i s of
           Inl e \<Rightarrow> Some (Inl e)
         | Inr (did_bloom, s') \<Rightarrow>
             update_cores R cfg emit_mode (i + 1) s' (if did_bloom then blooms + 1 else blooms))
      else Some (Inr (s, blooms)))"

declare update_cores.simps [code]

text \<open>The catalyst transforms of \<^verbatim>\<open>step\<close>, EMIT and COLLECT.\<close>

definition emit_catalyst :: "config \<Rightarrow> 'r simulation \<Rightarrow> 'r simulation" where
  "emit_catalyst cfg s =
     (let transfer = grid_scale (catalyst_upper s) (EMIT_FRACTION cfg);
          s1 = s\<lparr>catalyst_lower := grid_add (catalyst_lower s) transfer\<rparr>
      in s1\<lparr>catalyst_upper := grid_sub (catalyst_upper s1) transfer\<rparr>)"

definition collect_catalyst :: "config \<Rightarrow> 'r simulation \<Rightarrow> 'r simulation" where
  "collect_catalyst cfg s =
     (let s1 = s\<lparr>catalyst_upper := grid_add (catalyst_upper s) (catalyst_lower s)\<rparr>;
          s2 = s1\<lparr>catalyst_lower := fill_zero (catalyst_lower s1)\<rparr>;
          s3 = s2\<lparr>catalyst_upper := apply_convolution cfg (catalyst_upper s2) (KERNEL_3x3 cfg)\<rparr>
      in s3\<lparr>catalyst_upper := advect_right (catalyst_upper s3) (ADVECT_ALPHA cfg)\<rparr>)"

text \<open>\<^verbatim>\<open>step\<close>.\<close>

definition step ::
  "'r random_state \<Rightarrow> config \<Rightarrow> 'r simulation \<Rightarrow> (error + ('r simulation \<times> step_stats)) option"
where
  "step R cfg s =
     (let s1 = s\<lparr>tick := tick s + 1\<rparr>;
          emit_mode = (tick s1 mod 2 = 0)
      in case shift_temperature R cfg s1 of
           Inl e \<Rightarrow> Some (Inl e)
         | Inr s2 \<Rightarrow>
             (let s3 = (if emit_mode then emit_catalyst cfg s2 else collect_catalyst cfg s2)
              in case update_cores R cfg emit_mode 0 s3 0 of
                   None \<Rightarrow> None
                 | Some (Inl e) \<Rightarrow> Some (Inl e)
                 | Some (Inr (s4, blooms)) \<Rightarrow>
                     Some (Inr (s4,
                       \<lparr> stats_tick = tick s4,
                         stats_emit_mode = emit_mode,
                         blooms_this_tick = blooms,
                         stats_total_blooms = sim_total_blooms s4,
                         total_catalyst =
                           grid_sum (catalyst_upper s4) + grid_sum (catalyst_lower s4) \<rparr>))))"

text \<open>
  A run of \<open>k\<close> steps that collects the records, as the loop of
  \<^verbatim>\<open>cli.run_headless\<close> does.
\<close>

fun run ::
  "'r random_state \<Rightarrow> config \<Rightarrow> nat \<Rightarrow> 'r simulation
     \<Rightarrow> (error + ('r simulation \<times> step_stats list)) option"
where
  "run R cfg 0 s = Some (Inr (s, []))"
| "run R cfg (Suc k) s =
     (case step R cfg s of
        None \<Rightarrow> None
      | Some (Inl e) \<Rightarrow> Some (Inl e)
      | Some (Inr (s1, st)) \<Rightarrow>
          (case run R cfg k s1 of
             None \<Rightarrow> None
           | Some (Inl e) \<Rightarrow> Some (Inl e)
           | Some (Inr (s2, sts)) \<Rightarrow> Some (Inr (s2, st # sts))))"

text \<open>
  A whole run as a caller sees it: construct a simulation (at the clock reading
  \<open>now\<close>), step it \<open>k\<close> times and keep the sequence of records.
\<close>

definition simulate ::
  "'r random_state \<Rightarrow> config \<Rightarrow> int option \<Rightarrow> real \<Rightarrow> nat \<Rightarrow> (error + step_stats list) option"
where
  "simulate R cfg seed_arg now k =
     (case construct R cfg seed_arg now of
        None \<Rightarrow> None
      | Some (Inl e) \<Rightarrow> Some (Inl e)
      | Some (Inr s) \<Rightarrow>
          (case run R cfg k s of
             None \<Rightarrow> None
           | Some (Inl e) \<Rightarrow> Some (Inl e)
           | Some (Inr (s', sts)) \<Rightarrow> Some (Inr sts)))"

subsection \<open>\<^verbatim>\<open>set_parameter\<close> and the configuration module\<close>

text \<open>
  \<^verbatim>\<open>set_parameter\<close> works on the module object \<^verbatim>\<open>config\<close> itself:
  \<^verbatim>\<open>hasattr(config, name)\<close> asks whether the module has an attribute of that name and
  \<^verbatim>\<open>setattr\<close> rebinds it to any value. The dictionary of the module is a map from
  names to values. A value is one of the kinds \<^verbatim>\<open>config.py\<close> uses or an object of
  the runtime that the model does not look into.
\<close>

datatype pyvalue =
    PyInt int
  | PyFloat real
  | PyStr string
  | PyArray "real list list"
  | PyModule string
  | PyObject string

text \<open>
  \<open>import_attributes\<close> lists what the import system binds in the dictionary of every
  module it loads from a file, before the body of the module runs: the qualified name,
  the docstring, the package, and the loader, the spec, the two paths and the builtins,
  which are objects of the runtime. \<open>config_module\<close> lists the names that the body of
  \<^verbatim>\<open>config.py\<close> binds, in the order of the file, with the values it gives them;
  \<^verbatim>\<open>T_MIN, T_MAX = 0.40, 0.55\<close> binds two names and \<^verbatim>\<open>import numpy as np\<close> binds
  \<^verbatim>\<open>np\<close>.
\<close>

definition import_attributes :: "(string \<times> pyvalue) list" where
  "import_attributes =
     [(''__name__'', PyStr ''kernel_universe.config''),
      (''__doc__'',
         PyStr (CHR 0x0A # ''Configuration parameters for the Kernel Universe simulation.''
                  @ [CHR 0x0A])),
      (''__package__'', PyStr ''kernel_universe''),
      (''__loader__'', PyObject ''SourceFileLoader''),
      (''__spec__'', PyObject ''ModuleSpec''),
      (''__file__'', PyObject ''path of config.py''),
      (''__cached__'', PyObject ''path of the compiled config.py''),
      (''__builtins__'', PyObject ''builtins'')]"

definition config_module :: "(string \<times> pyvalue) list" where
  "config_module =
     [(''np'', PyModule ''numpy''),
      (''GRID_SIZE'', PyInt 100),
      (''DAY_TICKS'', PyInt 100),
      (''C_THRESH'', PyFloat 0.2),
      (''EMIT_FRACTION'', PyFloat 0.6),
      (''KERNEL_3x3'', PyArray [[0.05, 0.10, 0.05], [0.10, 0.40, 0.10], [0.05, 0.10, 0.05]]),
      (''ADVECT_ALPHA'', PyFloat 0.05),
      (''T_MIN'', PyFloat 0.40),
      (''T_MAX'', PyFloat 0.55),
      (''TAU_TEMP'', PyInt 8),
      (''TAU_CATALYST'', PyInt 12),
      (''TAU_REFRACT'', PyInt 12),
      (''SPAWN_S'', PyInt 2),
      (''RNG_SEED'', PyInt 42),
      (''INITIAL_CORES'', PyInt 10),
      (''REDIS_URL'', PyStr ''redis://localhost:6379''),
      (''REDIS_STATE_KEY'', PyStr ''kernel_universe:state''),
      (''API_HOST'', PyStr ''0.0.0.0''),
      (''API_PORT'', PyInt 8000),
      (''STREAM_FPS'', PyInt 5)]"

text \<open>The dictionary of the module \<^verbatim>\<open>config\<close> once it is imported.\<close>

definition config_namespace :: "string \<rightharpoonup> pyvalue" where
  "config_namespace = map_of (import_attributes @ config_module)"

text \<open>
  Attribute lookup on a module also finds what its type defines. These are the names
  that the type \<^verbatim>\<open>module\<close> and its base \<^verbatim>\<open>object\<close> define in CPython 3.11; a module
  has no other attributes than these and the keys of its dictionary
  (\<^verbatim>\<open>config.py\<close> defines no module-level \<^verbatim>\<open>__getattr__\<close>).
\<close>

definition module_type_attributes :: "string list" where
  "module_type_attributes =
     [''__annotations__'', ''__class__'', ''__delattr__'', ''__dict__'', ''__dir__'',
      ''__doc__'', ''__eq__'', ''__format__'', ''__ge__'', ''__getattribute__'',
      ''__getstate__'', ''__gt__'', ''__hash__'', ''__init__'', ''__init_subclass__'',
      ''__le__'', ''__lt__'', ''__ne__'', ''__new__'', ''__reduce__'', ''__reduce_ex__'',
      ''__repr__'', ''__setattr__'', ''__sizeof__'', ''__str__'', ''__subclasshook__'']"

text \<open>
  \<^verbatim>\<open>hasattr(config, name)\<close>: the name is a key of the dictionary of the module or an
  attribute of its type.
\<close>

definition hasattr :: "(string \<rightharpoonup> pyvalue) \<Rightarrow> string \<Rightarrow> bool" where
  "hasattr ns name \<longleftrightarrow> ns name \<noteq> None \<or> name \<in> set module_type_attributes"

text \<open>
  \<^verbatim>\<open>setattr(config, name, value)\<close> stores the value in the dictionary of the module,
  whether or not the name is bound there, except for the two names that the type
  guards: \<^verbatim>\<open>__class__\<close> accepts only a class, which no value of \<^typ>\<open>pyvalue\<close> is, and
  raises \<^verbatim>\<open>TypeError\<close>; \<^verbatim>\<open>__dict__\<close> is read-only and raises \<^verbatim>\<open>AttributeError\<close>.
\<close>

definition setattr ::
  "(string \<rightharpoonup> pyvalue) \<Rightarrow> string \<Rightarrow> pyvalue \<Rightarrow> error + (string \<rightharpoonup> pyvalue)"
where
  "setattr ns name v =
     (if name = ''__class__'' then Inl TypeError
      else if name = ''__dict__'' then Inl AttributeError
      else Inr (ns(name \<mapsto> v)))"

text \<open>
  \<^verbatim>\<open>set_parameter(param_name, value)\<close>: the returned boolean and the dictionary of the
  module after the call, or the exception that \<^verbatim>\<open>setattr\<close> raises.
\<close>

definition set_parameter ::
  "(string \<rightharpoonup> pyvalue) \<Rightarrow> string \<Rightarrow> pyvalue \<Rightarrow> error + (bool \<times> (string \<rightharpoonup> pyvalue))"
where
  "set_parameter ns param_name v =
     (if hasattr ns param_name then
        (case setattr ns param_name v of
           Inl e \<Rightarrow> Inl e
         | Inr ns' \<Rightarrow> Inr (True, ns'))
      else Inr (False, ns))"

text \<open>
  The engine reads \<^verbatim>\<open>config.NAME\<close> from this dictionary whenever it runs.
  \<open>read_config\<close> is the record of the values that the functions above read, defined
  when every name holds a value of the kind the record has (an integer where the
  engine counts or indexes, a number where it compares or multiplies, an array for the
  kernel).
\<close>

fun py_int :: "pyvalue option \<Rightarrow> int option" where
  "py_int (Some (PyInt i)) = Some i"
| "py_int _ = None"

fun py_number :: "pyvalue option \<Rightarrow> real option" where
  "py_number (Some (PyFloat x)) = Some x"
| "py_number (Some (PyInt i)) = Some (of_int i)"
| "py_number _ = None"

fun py_array :: "pyvalue option \<Rightarrow> real list list option" where
  "py_array (Some (PyArray a)) = Some a"
| "py_array _ = None"

definition read_config :: "(string \<rightharpoonup> pyvalue) \<Rightarrow> config option" where
  "read_config ns =
     (case (py_int (ns ''GRID_SIZE''), py_number (ns ''C_THRESH''),
            py_number (ns ''EMIT_FRACTION''), py_array (ns ''KERNEL_3x3''),
            py_number (ns ''ADVECT_ALPHA''), py_number (ns ''T_MIN''),
            py_number (ns ''T_MAX''), py_int (ns ''TAU_TEMP''),
            py_int (ns ''TAU_REFRACT''), py_int (ns ''SPAWN_S''),
            py_int (ns ''RNG_SEED''), py_int (ns ''INITIAL_CORES'')) of
        (Some g, Some c, Some e, Some k, Some a, Some t0, Some t1, Some tt, Some tr,
         Some sp, Some sd, Some ic) \<Rightarrow>
          Some \<lparr> GRID_SIZE = g, C_THRESH = c, EMIT_FRACTION = e, KERNEL_3x3 = k,
                 ADVECT_ALPHA = a, T_MIN = t0, T_MAX = t1, TAU_TEMP = tt,
                 TAU_REFRACT = tr, SPAWN_S = sp, RNG_SEED = sd, INITIAL_CORES = ic \<rparr>
      | _ \<Rightarrow> None)"

text \<open>
  The dictionaries the module can have: the one it has once imported, and those that
  calls of \<^verbatim>\<open>set_parameter\<close> that return make of it.
\<close>

inductive module_state :: "(string \<rightharpoonup> pyvalue) \<Rightarrow> bool" where
  imported: "module_state config_namespace"
| parameter_set:
    "module_state ns \<Longrightarrow> set_parameter ns name v = Inr (b, ns') \<Longrightarrow> module_state ns'"

subsection \<open>Notions used by the properties\<close>

text \<open>The conserved quantity: the catalyst mass of both layers.\<close>

definition total_mass :: "'r simulation \<Rightarrow> real" where
  "total_mass s = grid_sum (catalyst_upper s) + grid_sum (catalyst_lower s)"

text \<open>
  A valid catalyst field: both layers are \<open>GRID_SIZE \<times> GRID_SIZE\<close> arrays, for a
  positive \<open>GRID_SIZE\<close>.
\<close>

definition catalyst_shape :: "config \<Rightarrow> 'r simulation \<Rightarrow> bool" where
  "catalyst_shape cfg s \<longleftrightarrow>
     0 < GRID_SIZE cfg \<and>
     square (nat (GRID_SIZE cfg)) (catalyst_upper s) \<and>
     square (nat (GRID_SIZE cfg)) (catalyst_lower s)"

text \<open>A 3 by 3 kernel whose weights sum to 1.\<close>

definition normalized_3x3 :: "grid \<Rightarrow> bool" where
  "normalized_3x3 kern \<longleftrightarrow>
     length kern = 3 \<and> (\<forall>row \<in> set kern. length row = 3) \<and> grid_sum kern = 1"

text \<open>Every cell of an array holds a value in \<open>[0, 1)\<close>.\<close>

definition unit_grid :: "grid \<Rightarrow> bool" where
  "unit_grid a \<longleftrightarrow> (\<forall>row \<in> set a. \<forall>v \<in> set row. 0 \<le> v \<and> v < 1)"

text \<open>
  The collection transform cell by cell, in the words of the specification. The lifted
  layer is \<open>upper + lower\<close>. Diffusion replaces the cell \<open>(i, j)\<close> by the sum over
  the 3 by 3 neighbourhood, with wrap-around on the \<open>n\<close> by \<open>n\<close> grid, of the
  neighbour at offset \<open>(da - 1, db - 1)\<close> times the kernel weight \<open>kern[da][db]\<close>.
  Advection then blends every diffused cell with its left neighbour (wrap-around):
  \<open>(1 - alpha) * value + alpha * value_from_left_neighbour\<close>.
\<close>

definition spec_diffused_cell :: "(nat \<Rightarrow> nat \<Rightarrow> real) \<Rightarrow> grid \<Rightarrow> nat \<Rightarrow> nat \<Rightarrow> nat \<Rightarrow> real" where
  "spec_diffused_cell a kern n i j =
     sum_list (map (\<lambda>da.
        sum_list (map (\<lambda>db.
            a (nat ((int i + int da - 1) mod int n)) (nat ((int j + int db - 1) mod int n))
              * (kern ! da ! db))
          [0..<3]))
        [0..<3])"

definition spec_collected_cell :: "config \<Rightarrow> grid \<Rightarrow> grid \<Rightarrow> nat \<Rightarrow> nat \<Rightarrow> real" where
  "spec_collected_cell cfg upper lower i j =
     (let n = nat (GRID_SIZE cfg);
          lifted = (\<lambda>p q. upper ! p ! q + lower ! p ! q);
          alpha = ADVECT_ALPHA cfg
      in (1 - alpha) * spec_diffused_cell lifted (KERNEL_3x3 cfg) n i j
         + alpha * spec_diffused_cell lifted (KERNEL_3x3 cfg) n i (nat ((int j - 1) mod int n)))"

text \<open>
  The three bloom counts agree: the simulation's counter, the length of the event
  list, and the sum of the cores' own counters.
\<close>

definition blooms_consistent :: "'r simulation \<Rightarrow> bool" where
  "blooms_consistent s \<longleftrightarrow>
     sim_total_blooms s = int (length (bloom_locations s)) \<and>
     sim_total_blooms s = sum_list (map total_blooms (cores s))"

text \<open>
  The states a simulation object can be in: built by the constructor, then advanced by
  \<^verbatim>\<open>step\<close> and \<^verbatim>\<open>reset\<close> calls that return, under whatever configuration holds at
  each call.
\<close>

inductive reachable :: "'r random_state \<Rightarrow> 'r simulation \<Rightarrow> bool" for R :: "'r random_state" where
  constructed: "construct R cfg seed_arg now = Some (Inr s) \<Longrightarrow> reachable R s"
| stepped: "reachable R s \<Longrightarrow> step R cfg s = Some (Inr (s', st)) \<Longrightarrow> reachable R s'"
| was_reset: "reachable R s \<Longrightarrow> reset R cfg now s = Some (Inr s') \<Longrightarrow> reachable R s'"







text \<open>
  A valid state for a configuration: a positive grid size, the three arrays of that size,
  and every core on a cell of the grid. \<^verbatim>\<open>reset\<close> builds such states
  (\<open>reset_builds_valid_state\<close>) and \<^verbatim>\<open>step\<close> keeps them (\<open>step_keeps_valid_state\<close>).
\<close>

definition in_grid :: "config \<Rightarrow> core \<Rightarrow> bool" where
  "in_grid cfg c \<longleftrightarrow>
     0 \<le> core_x c \<and> core_x c < GRID_SIZE cfg \<and> 0 \<le> core_y c \<and> core_y c < GRID_SIZE cfg"

definition valid_state :: "config \<Rightarrow> 'r simulation \<Rightarrow> bool" where
  "valid_state cfg s \<longleftrightarrow>
     0 < GRID_SIZE cfg \<and>
     square (nat (GRID_SIZE cfg)) (temperature s) \<and>
     square (nat (GRID_SIZE cfg)) (catalyst_upper s) \<and>
     square (nat (GRID_SIZE cfg)) (catalyst_lower s) \<and>
     (\<forall>c \<in> set (cores s). in_grid cfg c)"

subsection \<open>A concrete generator and small inputs\<close>

text \<open>
  To run the model on concrete inputs the generator parameter is instantiated with a
  counter: the state is a natural number that every draw increments; a float is
  \<open>(r mod 8) / 8\<close> and \<open>randint lo hi\<close> is \<open>lo + r mod (hi - lo)\<close>. It meets
  \<open>draws_in_range\<close>. \<open>small_config\<close> is the default configuration on a 2 by 2 grid
  with one initial core.
\<close>

definition counter_rng :: "nat random_state" where
  "counter_rng =
     \<lparr> seeded = (\<lambda>sd. nat (sd mod 8)),
       random1 = (\<lambda>r. (real (r mod 8) / 8, r + 1)),
       randint1 = (\<lambda>lo hi r. (lo + int r mod (hi - lo), r + 1)) \<rparr>"

definition small_config :: config where
  "small_config = default_config\<lparr>GRID_SIZE := 2, INITIAL_CORES := 1\<rparr>"

text \<open>
  \<open>small_world\<close> is the simulation that \<open>construct\<close> builds from seed 4 with this
  generator and configuration, at clock reading 0.
\<close>

definition small_world :: "nat simulation" where
  "small_world =
     \<lparr> seed = 4, rng = 14, tick = 0,
       temperature = [[1/2, 5/8], [3/4, 7/8]],
       catalyst_upper = [[0, 1/40], [1/20, 3/40]],
       catalyst_lower = [[0, 0], [0, 0]],
       cores = [Core 0 1],
       sim_total_blooms = 0, bloom_locations = [], start_time = 0 \<rparr>"

text \<open>
  \<open>bloom_world\<close> is a simulation at tick 1 whose single core, at \<open>(0, 0)\<close>, has been
  exposed for 7 ticks and sits on enough catalyst to bloom on the next (emission) tick.
\<close>

definition bloom_world :: "nat simulation" where
  "bloom_world =
     \<lparr> seed = 4, rng = 4, tick = 1,
       temperature = [[1/2, 1/4], [1/2, 1/4]],
       catalyst_upper = [[1, 0], [0, 0]],
       catalyst_lower = [[0, 0], [0, 0]],
       cores = [(Core 0 0)\<lparr>temp_exposure_count := 7\<rparr>],
       sim_total_blooms = 0, bloom_locations = [], start_time = 0 \<rparr>"

text \<open>\<open>bloom_world_next\<close> is the simulation one \<^verbatim>\<open>step\<close> after \<open>bloom_world\<close>.\<close>

definition bloom_world_next :: "nat simulation" where
  "bloom_world_next =
     \<lparr> seed = 4, rng = 10, tick = 2,
       temperature = [[1/2, 1/2], [5/8, 1/2]],
       catalyst_upper = [[2/5, 0], [0, 0]],
       catalyst_lower = [[3/5, 0], [0, 0]],
       cores =
         [\<lparr> core_x = 0, core_y = 0, temp_exposure_count = 0, bloomed = True,
             refractory_countdown = 12, total_blooms = 1, last_bloom_tick = 2 \<rparr>,
          \<lparr> core_x = 1, core_y = 0, temp_exposure_count = 1, bloomed = False,
             refractory_countdown = 0, total_blooms = 0, last_bloom_tick = - 1 \<rparr>,
          \<lparr> core_x = 1, core_y = 0, temp_exposure_count = 1, bloomed = False,
             refractory_countdown = 0, total_blooms = 0, last_bloom_tick = - 1 \<rparr>],
       sim_total_blooms = 1, bloom_locations = [(0, 0, 2)], start_time = 0 \<rparr>"




text \<open>\<open>small_world_reset\<close> is \<open>small_world\<close> after one call of \<^verbatim>\<open>reset\<close> at clock reading 0.\<close>

definition small_world_reset :: "nat simulation" where
  "small_world_reset =
     \<lparr> seed = 4, rng = 24, tick = 0,
       temperature = [[3/4, 7/8], [0, 1/8]],
       catalyst_upper = [[1/20, 3/40], [1/10, 1/8]],
       catalyst_lower = [[0, 0], [0, 0]],
       cores = [Core 0 1],
       sim_total_blooms = 0, bloom_locations = [], start_time = 0 \<rparr>"

section \<open>The core state machine\<close>

lemma update_refractory:
  "0 < refractory_countdown c \<Longrightarrow>
     update cfg c n t cat e = (False, c\<lparr>refractory_countdown := refractory_countdown c - 1\<rparr>)"
  by (simp add: update_def)

section \<open>Arrays: sums and shapes\<close>

lemma sum_list_roll_row: "sum_list (roll_row xs) = sum_list (xs :: real list)"
proof (cases "xs = []")
  case True
  then show ?thesis by (simp add: roll_row_def)
next
  case False
  then have "xs = butlast xs @ [last xs]" by simp
  then have "sum_list xs = sum_list (butlast xs) + last xs"
    by (metis sum_list.append sum_list.Cons sum_list.Nil add.right_neutral)
  with False show ?thesis by (simp add: roll_row_def)
qed

lemma length_roll_row: "length (roll_row xs) = length xs"
  by (simp add: roll_row_def)

lemma square_roll_axis1: "square n a \<Longrightarrow> square n (roll_axis1 a)"
  by (auto simp: square_def roll_axis1_def length_roll_row)

lemma grid_sum_roll_axis1: "grid_sum (roll_axis1 a) = grid_sum a"
  by (simp add: grid_sum_def roll_axis1_def comp_def sum_list_roll_row)

lemma sum_list_map2_linear:
  fixes xs ys :: "real list"
  assumes "length xs = length ys"
  shows "sum_list (map2 (\<lambda>v w. p * v + q * w) xs ys) = p * sum_list xs + q * sum_list ys"
  using assms by (induction xs ys rule: list_induct2) (simp_all add: algebra_simps)

lemma grid_sum_map2_linear:
  assumes "square n a" and "square n b"
  shows "grid_sum (map2 (map2 (\<lambda>v w. p * v + q * w)) a b) = p * grid_sum a + q * grid_sum b"
proof -
  have "length a = length b" and "\<forall>(r1, r2) \<in> set (zip a b). length r1 = length r2"
    using assms by (auto simp: square_def elim!: in_set_zipE)
  then show ?thesis
    unfolding grid_sum_def
  proof (induction a b rule: list_induct2)
    case Nil
    then show ?case by simp
  next
    case (Cons x xs y ys)
    then have len: "length x = length y"
      and rest: "\<forall>(r1, r2) \<in> set (zip xs ys). length r1 = length r2"
      by auto
    have "sum_list (map2 (\<lambda>v w. p * v + q * w) x y) = p * sum_list x + q * sum_list y"
      using len by (rule sum_list_map2_linear)
    with Cons.IH [OF rest] show ?case by (simp add: ring_distribs)
  qed
qed

lemma square_map2:
  assumes "square n a" and "square n b"
  shows "square n (map2 (map2 f) a b)"
  using assms by (auto simp: square_def elim!: in_set_zipE)

lemma grid_sum_add: "square n a \<Longrightarrow> square n b \<Longrightarrow> grid_sum (grid_add a b) = grid_sum a + grid_sum b"
  using grid_sum_map2_linear [of n a b 1 1] by (simp add: grid_add_def)

lemma grid_sum_sub: "square n a \<Longrightarrow> square n b \<Longrightarrow> grid_sum (grid_sub a b) = grid_sum a - grid_sum b"
  using grid_sum_map2_linear [of n a b 1 "- 1"] by (simp add: grid_sub_def)

lemma grid_sum_scale: "grid_sum (grid_scale a f) = grid_sum a * f"
  by (simp add: grid_sum_def grid_scale_def comp_def sum_list_mult_const)

lemma square_scale: "square n a \<Longrightarrow> square n (grid_scale a f)"
  by (auto simp: square_def grid_scale_def)

lemma grid_sum_fill_zero: "grid_sum (fill_zero a) = 0"
  by (simp add: grid_sum_def fill_zero_def comp_def)

lemma square_fill_zero: "square n a \<Longrightarrow> square n (fill_zero a)"
  by (auto simp: square_def fill_zero_def)

lemma grid_sum_advect_right:
  assumes "square n a"
  shows "grid_sum (advect_right a alpha) = grid_sum a"
  using grid_sum_map2_linear [OF assms square_roll_axis1 [OF assms], of "1 - alpha" alpha]
  by (simp add: advect_right_def Let_def grid_sum_roll_axis1 algebra_simps)

lemma square_advect_right: "square n a \<Longrightarrow> square n (advect_right a alpha)"
  by (simp add: advect_right_def Let_def square_map2 square_roll_axis1)

lemma sum_shift_mod:
  fixes f :: "nat \<Rightarrow> real"
  assumes "0 < n"
  shows "(\<Sum>i<n. f (nat ((int i + c) mod int n))) = (\<Sum>i<n. f i)"
proof (rule sum.reindex_bij_witness
    [where i = "\<lambda>i. nat ((int i - c) mod int n)" and j = "\<lambda>i. nat ((int i + c) mod int n)"])
  fix a assume "a \<in> {..<n}"
  then have a: "a < n" by simp
  have "(int a + c) mod int n \<ge> 0" using assms by simp
  then have "int (nat ((int a + c) mod int n)) = (int a + c) mod int n" by simp
  then have "(int (nat ((int a + c) mod int n)) - c) mod int n = int a mod int n"
    by (simp add: mod_diff_left_eq)
  then show "nat ((int (nat ((int a + c) mod int n)) - c) mod int n) = a"
    using a by simp
  show "nat ((int a + c) mod int n) \<in> {..<n}"
    using assms by (simp add: nat_less_iff)
next
  fix b assume "b \<in> {..<n}"
  then have b: "b < n" by simp
  have "(int b - c) mod int n \<ge> 0" using assms by simp
  then have "int (nat ((int b - c) mod int n)) = (int b - c) mod int n" by simp
  then have "(int (nat ((int b - c) mod int n)) + c) mod int n = int b mod int n"
    by (simp add: mod_add_left_eq)
  then show "nat ((int (nat ((int b - c) mod int n)) + c) mod int n) = b"
    using b by simp
  show "nat ((int b - c) mod int n) \<in> {..<n}"
    using assms by (simp add: nat_less_iff)
qed simp

lemma sum_list_upt_sum: "sum_list (map f [0..<n]) = (\<Sum>i<n. (f i :: real))"
  by (simp add: interv_sum_list_conv_sum_set_nat atLeast0LessThan)

lemma grid_sum_nth:
  assumes "square n a"
  shows "grid_sum a = (\<Sum>i<n. \<Sum>j<n. a ! i ! j)"
proof -
  have "grid_sum a = (\<Sum>i<n. sum_list (a ! i))"
    using assms by (simp add: grid_sum_def square_def sum_list_sum_nth atLeast0LessThan)
  also have "\<dots> = (\<Sum>i<n. \<Sum>j<n. a ! i ! j)"
    using assms by (intro sum.cong) (auto simp: square_def sum_list_sum_nth atLeast0LessThan)
  finally show ?thesis .
qed

lemma sum_wrap_padded:
  assumes "square n a" and "0 < n"
  shows "(\<Sum>i<n. \<Sum>j<n. wrap_padded a w (i + da) (j + db)) = grid_sum a"
proof -
  let ?ci = "int da - int w" and ?cj = "int db - int w"
  have row: "length (a ! nat ((int i + ?ci) mod int n)) = n" for i
    using assms by (simp add: square_def nat_less_iff)
  have "(\<Sum>i<n. \<Sum>j<n. wrap_padded a w (i + da) (j + db))
      = (\<Sum>i<n. \<Sum>j<n. a ! nat ((int i + ?ci) mod int n) ! nat ((int j + ?cj) mod int n))"
    using assms row by (simp add: wrap_padded_def Let_def square_def algebra_simps)
  also have "\<dots> = (\<Sum>i<n. \<Sum>j<n. a ! nat ((int i + ?ci) mod int n) ! j)"
    by (intro sum.cong refl sum_shift_mod [OF assms(2)])
  also have "\<dots> = (\<Sum>i<n. \<Sum>j<n. a ! i ! j)"
    by (rule sum_shift_mod [OF assms(2), of "\<lambda>i. \<Sum>j<n. a ! i ! j"])
  also have "\<dots> = grid_sum a"
    using assms(1) by (simp add: grid_sum_nth)
  finally show ?thesis .
qed

lemma grid_sum_apply_convolution:
  assumes a: "square n a" and n: "0 < n" and g: "GRID_SIZE cfg = int n"
    and k: "\<forall>row \<in> set kern. length row = length (hd kern)"
  shows "grid_sum (apply_convolution cfg a kern) = grid_sum kern * grid_sum a"
proof -
  let ?kh = "length kern" and ?kw = "length (hd kern)" and ?w = "length kern div 2"
  have sq: "square n (apply_convolution cfg a kern)"
    using a by (auto simp: apply_convolution_def square_def Let_def)
  have cell: "apply_convolution cfg a kern ! i ! j = window_sum a kern ?w i j"
    if "i < n" "j < n" for i j
    using that a g by (simp add: apply_convolution_def square_def Let_def)
  have "grid_sum (apply_convolution cfg a kern)
      = (\<Sum>i<n. \<Sum>j<n. window_sum a kern ?w i j)"
    unfolding grid_sum_nth [OF sq] by (intro sum.cong refl) (simp_all add: cell)
  also have "\<dots> = (\<Sum>i<n. \<Sum>j<n. \<Sum>da<?kh. \<Sum>db<?kw.
                       wrap_padded a ?w (i + da) (j + db) * (kern ! da ! db))"
    by (simp add: window_sum_def sum_list_upt_sum)
  also have "\<dots> = (\<Sum>da<?kh. \<Sum>db<?kw. \<Sum>i<n. \<Sum>j<n.
                       wrap_padded a ?w (i + da) (j + db) * (kern ! da ! db))"
  proof -
    have "(\<Sum>i<n. \<Sum>j<n. \<Sum>da<?kh. \<Sum>db<?kw. F i j da db)
        = (\<Sum>da<?kh. \<Sum>db<?kw. \<Sum>i<n. \<Sum>j<n. (F i j da db :: real))" for F
    proof -
      have "(\<Sum>i<n. \<Sum>j<n. \<Sum>da<?kh. \<Sum>db<?kw. F i j da db)
          = (\<Sum>i<n. \<Sum>da<?kh. \<Sum>j<n. \<Sum>db<?kw. F i j da db)"
        by (rule sum.cong [OF refl]) (rule sum.swap)
      also have "\<dots> = (\<Sum>da<?kh. \<Sum>i<n. \<Sum>j<n. \<Sum>db<?kw. F i j da db)"
        by (rule sum.swap)
      also have "\<dots> = (\<Sum>da<?kh. \<Sum>i<n. \<Sum>db<?kw. \<Sum>j<n. F i j da db)"
        by (rule sum.cong [OF refl], rule sum.cong [OF refl], rule sum.swap)
      also have "\<dots> = (\<Sum>da<?kh. \<Sum>db<?kw. \<Sum>i<n. \<Sum>j<n. F i j da db)"
        by (rule sum.cong [OF refl]) (rule sum.swap)
      finally show ?thesis .
    qed
    then show ?thesis .
  qed
  also have "\<dots> = (\<Sum>da<?kh. \<Sum>db<?kw. (kern ! da ! db) * grid_sum a)"
  proof (intro sum.cong refl)
    fix da db
    have "(\<Sum>i<n. \<Sum>j<n. wrap_padded a ?w (i + da) (j + db) * (kern ! da ! db))
        = (\<Sum>i<n. \<Sum>j<n. wrap_padded a ?w (i + da) (j + db)) * (kern ! da ! db)"
      by (simp add: sum_distrib_right)
    then show "(\<Sum>i<n. \<Sum>j<n. wrap_padded a ?w (i + da) (j + db) * (kern ! da ! db))
        = (kern ! da ! db) * grid_sum a"
      by (simp add: sum_wrap_padded [OF a n] mult.commute)
  qed
  also have "\<dots> = (\<Sum>da<?kh. \<Sum>db<?kw. kern ! da ! db) * grid_sum a"
    by (simp add: sum_distrib_right)
  also have "(\<Sum>da<?kh. \<Sum>db<?kw. kern ! da ! db) = grid_sum kern"
  proof -
    have "grid_sum kern = (\<Sum>da<?kh. sum_list (kern ! da))"
      by (simp add: grid_sum_def sum_list_sum_nth atLeast0LessThan)
    also have "\<dots> = (\<Sum>da<?kh. \<Sum>db<?kw. kern ! da ! db)"
      using k by (intro sum.cong) (auto simp: sum_list_sum_nth atLeast0LessThan)
    finally show ?thesis by simp
  qed
  finally show ?thesis .
qed

lemma square_apply_convolution: "square n a \<Longrightarrow> square n (apply_convolution cfg a kern)"
  by (auto simp: apply_convolution_def square_def Let_def)

section \<open>The core loop of a step\<close>

lemma update_cores_invariant:
  fixes s :: "'a simulation"
  assumes run: "update_cores R cfg e i s b = Some (Inr (s', b'))"
    and init: "P i s b"
    and body: "\<And>i s b d s1. P i s b \<Longrightarrow> i < length (cores s)
                 \<Longrightarrow> core_iteration R cfg e i s = Inr (d, s1)
                 \<Longrightarrow> P (i + 1) s1 (if d then b + 1 else b)"
  shows "\<exists>i'. P i' s' b' \<and> length (cores s') \<le> i'"
proof -
  define Q where "Q = (\<lambda>R0 cfg0 e0 i s b (y :: error + 'a simulation \<times> int).
      R0 = R \<and> cfg0 = cfg \<and> e0 = e \<and> P i s b
        \<longrightarrow> (\<forall>s' b'. y = Inr (s', b') \<longrightarrow> (\<exists>i'. P i' s' b' \<and> length (cores s') \<le> i')))"
  have "Q R cfg e i s b (Inr (s', b'))"
  proof (rule update_cores.raw_induct [where P = Q, OF _ run])
    fix loop R0 cfg0 e0 i s b y
    assume IH: "\<And>R1 cfg1 e1 i1 s1 b1 y1.
        loop R1 cfg1 e1 i1 s1 b1 = Some y1 \<Longrightarrow> Q R1 cfg1 e1 i1 s1 b1 y1"
      and eq: "(if i < length (cores s) then
                  (case core_iteration R0 cfg0 e0 i s of
                     Inl err \<Rightarrow> Some (Inl err)
                   | Inr (did_bloom, s') \<Rightarrow>
                       loop R0 cfg0 e0 (i + 1) s' (if did_bloom then b + 1 else b))
                else Some (Inr (s, b))) = Some y"
    show "Q R0 cfg0 e0 i s b y"
      unfolding Q_def
    proof (intro impI allI)
      fix s' b'
      assume pre: "R0 = R \<and> cfg0 = cfg \<and> e0 = e \<and> P i s b" and y: "y = Inr (s', b')"
      show "\<exists>i'. P i' s' b' \<and> length (cores s') \<le> i'"
      proof (cases "i < length (cores s)")
        case False
        with eq y pre show ?thesis by (auto intro!: exI [of _ i])
      next
        case True
        with eq y obtain d s1 where it: "core_iteration R0 cfg0 e0 i s = Inr (d, s1)"
          and rec: "loop R0 cfg0 e0 (i + 1) s1 (if d then b + 1 else b) = Some (Inr (s', b'))"
          by (auto split: sum.splits)
        from body [of i s b d s1] pre True it
        have "P (i + 1) s1 (if d then b + 1 else b)" by simp
        with IH [OF rec] pre show ?thesis by (simp add: Q_def)
      qed
    qed
  qed
  with init show ?thesis by (simp add: Q_def)
qed

lemma spawn_new_cores_frame:
  "spawn_new_cores R cfg px py k s = Inr s1 \<Longrightarrow>
     tick s1 = tick s \<and> temperature s1 = temperature s \<and>
     catalyst_upper s1 = catalyst_upper s \<and> catalyst_lower s1 = catalyst_lower s \<and>
     sim_total_blooms s1 = sim_total_blooms s \<and> bloom_locations s1 = bloom_locations s \<and>
     seed s1 = seed s \<and> start_time s1 = start_time s"
  by (induction k arbitrary: s) (auto split: sum.splits if_splits simp: Let_def)

lemma core_iteration_Inr:
  "core_iteration R cfg e i s = Inr (d, s1) \<longleftrightarrow>
     (\<exists>t u c'.
        grid_at (temperature s) (core_y (cores s ! i)) (core_x (cores s ! i)) = Inr t \<and>
        grid_at (catalyst_upper s) (core_y (cores s ! i)) (core_x (cores s ! i)) = Inr u \<and>
        update cfg (cores s ! i) (tick s) t u e = (d, c') \<and>
        (if d then
           spawn_new_cores R cfg (core_x (cores s ! i)) (core_y (cores s ! i)) (nat (SPAWN_S cfg))
             (s\<lparr>cores := (cores s)[i := c'],
                sim_total_blooms := sim_total_blooms s + 1,
                bloom_locations :=
                  bloom_locations s @ [(core_x (cores s ! i), core_y (cores s ! i), tick s)]\<rparr>)
             = Inr s1
         else s1 = s\<lparr>cores := (cores s)[i := c']\<rparr>))"
proof (cases "grid_at (temperature s) (core_y (cores s ! i)) (core_x (cores s ! i))")
  case (Inl err)
  then show ?thesis by (simp add: core_iteration_def Let_def)
next
  case t: (Inr t)
  show ?thesis
  proof (cases "grid_at (catalyst_upper s) (core_y (cores s ! i)) (core_x (cores s ! i))")
    case (Inl err)
    with t show ?thesis by (simp add: core_iteration_def Let_def)
  next
    case u: (Inr u)
    obtain d0 c0 where upd: "update cfg (cores s ! i) (tick s) t u e = (d0, c0)"
      by (cases "update cfg (cores s ! i) (tick s) t u e")
    show ?thesis
    proof (cases "SPAWN_S cfg > 0")
      case True
      with t u upd show ?thesis
        by (cases d0) (auto simp: core_iteration_def Let_def split: sum.splits)
    next
      case False
      then have "nat (SPAWN_S cfg) = 0" by simp
      with False t u upd show ?thesis
        by (cases d0) (auto simp: core_iteration_def Let_def)
    qed
  qed
qed

lemma core_iteration_frame:
  assumes "core_iteration R cfg e i s = Inr (d, s1)"
  shows "tick s1 = tick s \<and> temperature s1 = temperature s \<and>
     catalyst_upper s1 = catalyst_upper s \<and> catalyst_lower s1 = catalyst_lower s \<and>
     seed s1 = seed s \<and> start_time s1 = start_time s"
proof -
  from assms obtain c' where
    *: "if d then
           spawn_new_cores R cfg (core_x (cores s ! i)) (core_y (cores s ! i)) (nat (SPAWN_S cfg))
             (s\<lparr>cores := (cores s)[i := c'],
                sim_total_blooms := sim_total_blooms s + 1,
                bloom_locations :=
                  bloom_locations s @ [(core_x (cores s ! i), core_y (cores s ! i), tick s)]\<rparr>)
             = Inr s1
         else s1 = s\<lparr>cores := (cores s)[i := c']\<rparr>"
    unfolding core_iteration_Inr by blast
  show ?thesis
  proof (cases d)
    case True
    with * show ?thesis using spawn_new_cores_frame by fastforce
  next
    case False
    with * show ?thesis by simp
  qed
qed

lemma update_cores_frame:
  assumes "update_cores R cfg e i s b = Some (Inr (s', b'))"
  shows "tick s' = tick s \<and> temperature s' = temperature s \<and>
     catalyst_upper s' = catalyst_upper s \<and> catalyst_lower s' = catalyst_lower s \<and>
     seed s' = seed s \<and> start_time s' = start_time s"
proof -
  have "\<exists>i'. (tick s' = tick s \<and> temperature s' = temperature s \<and>
     catalyst_upper s' = catalyst_upper s \<and> catalyst_lower s' = catalyst_lower s \<and>
     seed s' = seed s \<and> start_time s' = start_time s) \<and> length (cores s') \<le> i'"
  proof (rule update_cores_invariant [OF assms])
    fix i s0 b d s1
    assume "tick s0 = tick s \<and> temperature s0 = temperature s \<and>
     catalyst_upper s0 = catalyst_upper s \<and> catalyst_lower s0 = catalyst_lower s \<and>
     seed s0 = seed s \<and> start_time s0 = start_time s"
      and "core_iteration R cfg e i s0 = Inr (d, s1)"
    then show "tick s1 = tick s \<and> temperature s1 = temperature s \<and>
     catalyst_upper s1 = catalyst_upper s \<and> catalyst_lower s1 = catalyst_lower s \<and>
     seed s1 = seed s \<and> start_time s1 = start_time s"
      using core_iteration_frame by metis
  qed simp
  then show ?thesis by blast
qed

lemma shift_temperature_frame:
  assumes "shift_temperature R cfg s = Inr s2"
  shows "catalyst_upper s2 = catalyst_upper s \<and>
   catalyst_lower s2 = catalyst_lower s \<and>
   tick s2 = tick s \<and>
   cores s2 = cores s \<and>
   sim_total_blooms s2 = sim_total_blooms s \<and>
   bloom_locations s2 = bloom_locations s \<and>
   seed s2 = seed s \<and>
   start_time s2 = start_time s"
  using assms
  by (auto simp: shift_temperature_def Let_def split_beta split: if_splits)

section \<open>Conservation of catalyst mass\<close>

lemma emit_catalyst_mass:
  assumes "catalyst_shape cfg s"
  shows "total_mass (emit_catalyst cfg s) = total_mass s"
    and "catalyst_shape cfg (emit_catalyst cfg s)"
proof -
  let ?n = "nat (GRID_SIZE cfg)"
  let ?tr = "grid_scale (catalyst_upper s) (EMIT_FRACTION cfg)"
  from assms have u: "square ?n (catalyst_upper s)" and l: "square ?n (catalyst_lower s)"
    by (simp_all add: catalyst_shape_def)
  have t: "square ?n ?tr" using u by (rule square_scale)
  show "total_mass (emit_catalyst cfg s) = total_mass s"
    by (simp add: total_mass_def emit_catalyst_def Let_def
        grid_sum_add [OF l t] grid_sum_sub [OF u t])
  show "catalyst_shape cfg (emit_catalyst cfg s)"
    using assms u l t
    by (simp add: catalyst_shape_def emit_catalyst_def Let_def grid_add_def grid_sub_def square_map2)
qed

lemma collect_catalyst_mass:
  assumes "normalized_3x3 (KERNEL_3x3 cfg)" and "catalyst_shape cfg s"
  shows "total_mass (collect_catalyst cfg s) = total_mass s"
    and "catalyst_shape cfg (collect_catalyst cfg s)"
proof -
  let ?n = "nat (GRID_SIZE cfg)"
  let ?sum = "grid_add (catalyst_upper s) (catalyst_lower s)"
  let ?conv = "apply_convolution cfg ?sum (KERNEL_3x3 cfg)"
  from assms have u: "square ?n (catalyst_upper s)" and l: "square ?n (catalyst_lower s)"
    and n: "0 < ?n" and g: "GRID_SIZE cfg = int ?n"
    by (simp_all add: catalyst_shape_def)
  from assms(1) have k: "\<forall>row \<in> set (KERNEL_3x3 cfg). length row = length (hd (KERNEL_3x3 cfg))"
    and k1: "grid_sum (KERNEL_3x3 cfg) = 1"
    by (cases "KERNEL_3x3 cfg"; simp add: normalized_3x3_def)+
  have sq_sum: "square ?n ?sum" using u l by (simp add: grid_add_def square_map2)
  have sq_conv: "square ?n ?conv" using sq_sum by (rule square_apply_convolution)
  have "grid_sum ?conv = grid_sum ?sum"
    using grid_sum_apply_convolution [OF sq_sum n g k] k1 by simp
  then show "total_mass (collect_catalyst cfg s) = total_mass s"
    by (simp add: total_mass_def collect_catalyst_def Let_def grid_sum_fill_zero
        grid_sum_advect_right [OF sq_conv] grid_sum_add [OF u l])
  show "catalyst_shape cfg (collect_catalyst cfg s)"
    using assms(2) sq_conv l
    by (simp add: catalyst_shape_def collect_catalyst_def Let_def square_fill_zero
        square_advect_right)
qed

lemma step_Inr:
  assumes "step R cfg s = Some (Inr (s', st))"
  obtains s2 s3 b where
    "shift_temperature R cfg (s\<lparr>tick := tick s + 1\<rparr>) = Inr s2"
    and "s3 = (if (tick s + 1) mod 2 = 0 then emit_catalyst cfg s2 else collect_catalyst cfg s2)"
    and "update_cores R cfg ((tick s + 1) mod 2 = 0) 0 s3 0 = Some (Inr (s', b))"
    and "st = \<lparr> stats_tick = tick s', stats_emit_mode = ((tick s + 1) mod 2 = 0),
                blooms_this_tick = b, stats_total_blooms = sim_total_blooms s',
                total_catalyst = grid_sum (catalyst_upper s') + grid_sum (catalyst_lower s') \<rparr>"
  using assms
  by (auto simp: step_def Let_def split: option.splits sum.splits)

lemma step_mass:
  assumes k: "normalized_3x3 (KERNEL_3x3 cfg)" and sh: "catalyst_shape cfg s"
    and st: "step R cfg s = Some (Inr (s', st))"
  shows "total_mass s' = total_mass s \<and> total_catalyst st = total_mass s \<and> catalyst_shape cfg s'"
proof -
  from st obtain s2 s3 b where
    shift: "shift_temperature R cfg (s\<lparr>tick := tick s + 1\<rparr>) = Inr s2"
    and s3: "s3 = (if (tick s + 1) mod 2 = 0 then emit_catalyst cfg s2 else collect_catalyst cfg s2)"
    and loop: "update_cores R cfg ((tick s + 1) mod 2 = 0) 0 s3 0 = Some (Inr (s', b))"
    and stats: "total_catalyst st = grid_sum (catalyst_upper s') + grid_sum (catalyst_lower s')"
    by (rule step_Inr) simp
  note fr2 = shift_temperature_frame [OF shift]
  have sh2: "catalyst_shape cfg s2" and m2: "total_mass s2 = total_mass s"
    using sh fr2 by (simp_all add: catalyst_shape_def total_mass_def)
  have "total_mass s3 = total_mass s \<and> catalyst_shape cfg s3"
    using emit_catalyst_mass [OF sh2] collect_catalyst_mass [OF k sh2] m2
    by (simp add: s3)
  moreover have "catalyst_upper s' = catalyst_upper s3" "catalyst_lower s' = catalyst_lower s3"
    using update_cores_frame [OF loop] by simp_all
  ultimately show ?thesis
    using stats by (simp add: total_mass_def catalyst_shape_def)
qed

lemma construct_small_world:
  "construct counter_rng small_config (Some 4) 0 = Some (Inr small_world)"
  by code_simp

lemma default_kernel_normalized: "normalized_3x3 (KERNEL_3x3 default_config)"
  by (simp add: normalized_3x3_def default_config_def grid_sum_def)

section \<open>The temperature scroll\<close>

lemma nth_roll_row:
  assumes "0 < c" and "c < length xs"
  shows "roll_row xs ! c = xs ! (c - 1)"
proof -
  from assms have "xs \<noteq> []" by auto
  moreover from assms have "c - 1 < length (butlast xs)" by simp
  ultimately show ?thesis
    using assms by (simp add: roll_row_def nth_Cons' nth_butlast)
qed

lemma random_vec_length: "length (fst (random_vec R n r)) = n"
  by (induction n arbitrary: r) (simp_all add: split_beta Let_def)

lemma random_vec_bounds:
  assumes "draws_in_range R"
  shows "\<forall>v \<in> set (fst (random_vec R n r)). 0 \<le> v \<and> v < 1"
proof (induction n arbitrary: r)
  case 0
  then show ?case by simp
next
  case (Suc n)
  from assms have "0 \<le> fst (random1 R r) \<and> fst (random1 R r) < 1"
    by (simp add: draws_in_range_def)
  with Suc show ?case by (simp add: split_beta Let_def)
qed

lemma shift_temperature_empty:
  assumes "GRID_SIZE cfg = 0" and "temperature s = []"
  shows "shift_temperature R cfg s = Inl IndexError"
  using assms by (simp add: shift_temperature_def roll_axis1_def)

lemma shift_temperature_returns:
  assumes n: "GRID_SIZE cfg = int n" and sq: "square n (temperature s)" and pos: "0 < n"
  shows "shift_temperature R cfg s =
    Inr (s\<lparr>temperature :=
              map2 (\<lambda>row v. row[0 := v]) (roll_axis1 (temperature s)) (fst (random_vec R n (rng s))),
            rng := snd (random_vec R n (rng s))\<rparr>)"
proof -
  let ?rolled = "roll_axis1 (temperature s)"
  have sq_r: "square n ?rolled" using sq by (rule square_roll_axis1)
  then have len: "length ?rolled = n" by (simp add: square_def)
  with pos have ne: "?rolled \<noteq> []" by auto
  then have "hd ?rolled \<in> set ?rolled" by simp
  with sq_r have "length (hd ?rolled) = n" by (simp add: square_def)
  with pos have "hd ?rolled \<noteq> []" by auto
  with ne len show ?thesis
    using n by (simp add: shift_temperature_def Let_def split_beta random_vec_length)
qed

lemma shift_temperature_cells:
  fixes R :: "'r random_state" and s :: "'r simulation"
  assumes n: "GRID_SIZE cfg = int n" and sq: "square n (temperature s)" and pos: "0 < n"
    and shift: "shift_temperature R cfg s = Inr s2"
  defines "col \<equiv> fst (random_vec R n (rng s))"
    and "new \<equiv> temperature s2"
  shows "square n new"
    and "\<forall>r < n. \<forall>c. 0 < c \<and> c < n \<longrightarrow> new ! r ! c = temperature s ! r ! (c - 1)"
    and "\<forall>r < n. new ! r ! 0 = col ! r"
    and "rng s2 = snd (random_vec R n (rng s))"
    and "draws_in_range R \<longrightarrow> (\<forall>v \<in> set col. 0 \<le> v \<and> v < 1)"
    and "draws_in_range R \<and> unit_grid (temperature s) \<longrightarrow> unit_grid new"
proof -
  let ?rolled = "roll_axis1 (temperature s)"
  note ret = shift_temperature_returns [OF n sq pos, of R]
  have s2: "s2 = s\<lparr>temperature := map2 (\<lambda>row v. row[0 := v]) ?rolled col,
                    rng := snd (random_vec R n (rng s))\<rparr>"
    using ret shift by (simp add: col_def)
  have new: "new = map2 (\<lambda>row v. row[0 := v]) ?rolled col"
    by (simp add: new_def s2)
  have len_col: "length col = n" by (simp add: col_def random_vec_length)
  have sq_r: "square n ?rolled" using sq by (rule square_roll_axis1)
  then have len_r: "length ?rolled = n" and rows_r: "\<And>r. r < n \<Longrightarrow> length (?rolled ! r) = n"
    by (auto simp: square_def)
  have row: "new ! r = (?rolled ! r)[0 := col ! r]" if "r < n" for r
    using that len_col len_r by (simp add: new)
  show "square n new"
    unfolding square_def
  proof (intro conjI ballI)
    show "length new = n" using len_col len_r by (simp add: new)
    fix w assume "w \<in> set new"
    then obtain r where "r < length new" "w = new ! r" by (auto simp: in_set_conv_nth)
    moreover have "length new = n" using len_col len_r by (simp add: new)
    ultimately show "length w = n" using row rows_r by simp
  qed
  show "\<forall>r < n. \<forall>c. 0 < c \<and> c < n \<longrightarrow> new ! r ! c = temperature s ! r ! (c - 1)"
  proof (intro allI impI)
    fix r c assume r: "r < n" and c: "0 < c \<and> c < n"
    from sq r have lr: "length (temperature s ! r) = n" and "r < length (temperature s)"
      by (auto simp: square_def)
    then have "?rolled ! r = roll_row (temperature s ! r)" by (simp add: roll_axis1_def)
    with row [OF r] c lr show "new ! r ! c = temperature s ! r ! (c - 1)"
      by (simp add: nth_roll_row)
  qed
  show "\<forall>r < n. new ! r ! 0 = col ! r"
    using row rows_r pos by simp
  show "rng s2 = snd (random_vec R n (rng s))"
    by (simp add: s2)
  show "draws_in_range R \<longrightarrow> (\<forall>v \<in> set col. 0 \<le> v \<and> v < 1)"
    using random_vec_bounds [of R n "rng s"] by (simp add: col_def)
  show "draws_in_range R \<and> unit_grid (temperature s) \<longrightarrow> unit_grid new"
  proof
    assume a: "draws_in_range R \<and> unit_grid (temperature s)"
    then have colb: "\<forall>v \<in> set col. 0 \<le> v \<and> v < 1"
      using random_vec_bounds [of R n "rng s"] by (simp add: col_def)
    have rolled: "\<forall>w \<in> set ?rolled. \<forall>v \<in> set w. 0 \<le> v \<and> v < 1"
    proof (intro ballI)
      fix w v assume "w \<in> set ?rolled" and v: "v \<in> set w"
      then obtain w0 where w0: "w0 \<in> set (temperature s)" and "w = roll_row w0"
        by (auto simp: roll_axis1_def)
      with v have "v \<in> set w0"
        by (cases "w0 = []") (auto simp: roll_row_def dest: in_set_butlastD)
      with a w0 show "0 \<le> v \<and> v < 1" by (auto simp: unit_grid_def)
    qed
    show "unit_grid new"
      unfolding unit_grid_def new
    proof (intro ballI)
      fix w v assume "w \<in> set (map2 (\<lambda>row v. row[0 := v]) ?rolled col)" and v: "v \<in> set w"
      then obtain w0 x where "w0 \<in> set ?rolled" "x \<in> set col" "w = w0[0 := x]"
        by (auto elim!: in_set_zipE)
      with v rolled colb show "0 \<le> v \<and> v < 1"
        by (cases w0) auto
    qed
  qed
qed

lemma counter_rng_in_range: "draws_in_range counter_rng"
proof -
  have "lo \<le> lo + int r mod (hi - lo) \<and> lo + int r mod (hi - lo) < hi" if "lo < hi" for lo hi :: int and r :: nat
    using that pos_mod_bound [of "hi - lo" "int r"] pos_mod_sign [of "hi - lo" "int r"] by linarith
  moreover have "real (r mod 8) / 8 < 1" for r :: nat
    by simp
  ultimately show ?thesis
    by (simp add: draws_in_range_def counter_rng_def)
qed

section \<open>The step: tick, mode and catalyst transform\<close>

section \<open>One update, one spawn\<close>

lemma update_total_blooms:
  assumes "update cfg c n t u e = (d, c')"
  shows "total_blooms c' = total_blooms c + (if d then 1 else 0)"
    and "core_x c' = core_x c" and "core_y c' = core_y c"
  using assms by (auto simp: update_def Let_def split: if_splits)

lemma sum_list_map_update:
  fixes f :: "'a \<Rightarrow> int"
  assumes "i < length xs"
  shows "sum_list (map f (xs[i := v])) = sum_list (map f xs) - f (xs ! i) + f v"
  using assms
proof (induction xs arbitrary: i)
  case Nil
  then show ?case by simp
next
  case (Cons x xs)
  then show ?case by (cases i) simp_all
qed

lemma spawn_new_cores_cores:
  assumes "spawn_new_cores R cfg px py k s = Inr s1"
  shows "\<exists>new. cores s1 = cores s @ new \<and> length new = k \<and>
           (\<forall>c \<in> set new. \<exists>dx dy.
               c = Core ((px + dx) mod GRID_SIZE cfg) ((py + dy) mod GRID_SIZE cfg) \<and>
               (draws_in_range R \<longrightarrow> - 5 \<le> dx \<and> dx \<le> 5 \<and> - 5 \<le> dy \<and> dy \<le> 5))"
  using assms
proof (induction k arbitrary: s)
  case 0
  then show ?case by simp
next
  case (Suc k)
  let ?dx = "fst (randint1 R (- 5) 6 (rng s))" and ?r1 = "snd (randint1 R (- 5) 6 (rng s))"
  let ?dy = "fst (randint1 R (- 5) 6 ?r1)" and ?r2 = "snd (randint1 R (- 5) 6 ?r1)"
  let ?c = "Core ((px + ?dx) mod GRID_SIZE cfg) ((py + ?dy) mod GRID_SIZE cfg)"
  from Suc.prems have g: "GRID_SIZE cfg \<noteq> 0"
    and rec: "spawn_new_cores R cfg px py k (s\<lparr>rng := ?r2, cores := cores s @ [?c]\<rparr>) = Inr s1"
    by (auto simp: randint_def Let_def split_beta split: if_splits)
  from Suc.IH [OF rec] obtain new where new: "cores s1 = (cores s @ [?c]) @ new"
    "length new = k"
    "\<forall>c \<in> set new. \<exists>dx dy.
        c = Core ((px + dx) mod GRID_SIZE cfg) ((py + dy) mod GRID_SIZE cfg) \<and>
        (draws_in_range R \<longrightarrow> - 5 \<le> dx \<and> dx \<le> 5 \<and> - 5 \<le> dy \<and> dy \<le> 5)"
    by auto
  have rng: "draws_in_range R \<longrightarrow> - 5 \<le> ?dx \<and> ?dx \<le> 5 \<and> - 5 \<le> ?dy \<and> ?dy \<le> 5"
  proof
    assume "draws_in_range R"
    then have all: "\<forall>lo hi r. lo < hi \<longrightarrow>
        lo \<le> fst (randint1 R lo hi r) \<and> fst (randint1 R lo hi r) < hi"
      by (simp add: draws_in_range_def)
    have lt: "(- 5 :: int) < 6" by simp
    have b: "- 5 \<le> fst (randint1 R (- 5) 6 r) \<and> fst (randint1 R (- 5) 6 r) < 6" for r
      using all lt by blast
    from b [of "rng s"] b [of ?r1]
    show "- 5 \<le> ?dx \<and> ?dx \<le> 5 \<and> - 5 \<le> ?dy \<and> ?dy \<le> 5"
      by linarith
  qed
  show ?case
  proof (intro exI [of _ "?c # new"] conjI ballI)
    show "cores s1 = cores s @ ?c # new" using new(1) by simp
    show "length (?c # new) = Suc k" using new(2) by simp
    fix c assume "c \<in> set (?c # new)"
    then consider "c = ?c" | "c \<in> set new" by auto
    then show "\<exists>dx dy.
        c = Core ((px + dx) mod GRID_SIZE cfg) ((py + dy) mod GRID_SIZE cfg) \<and>
        (draws_in_range R \<longrightarrow> - 5 \<le> dx \<and> dx \<le> 5 \<and> - 5 \<le> dy \<and> dy \<le> 5)"
    proof cases
      case 1
      with rng show ?thesis by blast
    next
      case 2
      with new(3) show ?thesis by blast
    qed
  qed
qed

section \<open>The bloom counters\<close>

lemma Core_total_blooms: "total_blooms (Core x y) = 0"
  by (simp add: Core_def)

lemma sum_list_all_zero:
  fixes f :: "'a \<Rightarrow> int"
  shows "\<forall>c \<in> set xs. f c = 0 \<Longrightarrow> sum_list (map f xs) = 0"
  by (induction xs) auto

lemma core_iteration_blooms_consistent:
  assumes it: "core_iteration R cfg e i s = Inr (d, s1)"
    and i: "i < length (cores s)"
    and inv: "blooms_consistent s"
  shows "blooms_consistent s1"
proof -
  let ?c = "cores s ! i"
  from it obtain t u c' where
    upd: "update cfg ?c (tick s) t u e = (d, c')"
    and res: "if d then
           spawn_new_cores R cfg (core_x ?c) (core_y ?c) (nat (SPAWN_S cfg))
             (s\<lparr>cores := (cores s)[i := c'],
                sim_total_blooms := sim_total_blooms s + 1,
                bloom_locations := bloom_locations s @ [(core_x ?c, core_y ?c, tick s)]\<rparr>)
             = Inr s1
         else s1 = s\<lparr>cores := (cores s)[i := c']\<rparr>"
    unfolding core_iteration_Inr by blast
  have tb: "total_blooms c' = total_blooms ?c + (if d then 1 else 0)"
    using upd by (rule update_total_blooms)
  have sum: "sum_list (map total_blooms ((cores s)[i := c']))
      = sum_list (map total_blooms (cores s)) + (if d then 1 else 0)"
    using sum_list_map_update [OF i, of total_blooms c'] tb by simp
  show ?thesis
  proof (cases d)
    case False
    with res sum inv show ?thesis by (simp add: blooms_consistent_def)
  next
    case True
    let ?s2 = "s\<lparr>cores := (cores s)[i := c'],
                sim_total_blooms := sim_total_blooms s + 1,
                bloom_locations := bloom_locations s @ [(core_x ?c, core_y ?c, tick s)]\<rparr>"
    from True res have sp: "spawn_new_cores R cfg (core_x ?c) (core_y ?c) (nat (SPAWN_S cfg)) ?s2
        = Inr s1" by simp
    from spawn_new_cores_cores [OF sp] obtain new where
      new: "cores s1 = cores ?s2 @ new"
      and fresh: "\<forall>c \<in> set new. \<exists>dx dy.
          c = Core ((core_x ?c + dx) mod GRID_SIZE cfg) ((core_y ?c + dy) mod GRID_SIZE cfg) \<and>
          (draws_in_range R \<longrightarrow> - 5 \<le> dx \<and> dx \<le> 5 \<and> - 5 \<le> dy \<and> dy \<le> 5)"
      by blast
    from fresh have "\<forall>c \<in> set new. total_blooms c = 0"
      using Core_total_blooms by metis
    then have zero: "sum_list (map total_blooms new) = 0"
      by (rule sum_list_all_zero)
    from spawn_new_cores_frame [OF sp]
    have "sim_total_blooms s1 = sim_total_blooms s + 1"
      and "bloom_locations s1 = bloom_locations s @ [(core_x ?c, core_y ?c, tick s)]"
      by simp_all
    with new zero sum True inv show ?thesis by (simp add: blooms_consistent_def)
  qed
qed

lemma update_cores_blooms_consistent:
  assumes "update_cores R cfg e i s b = Some (Inr (s', b'))" and "blooms_consistent s"
  shows "blooms_consistent s'"
proof -
  have "\<exists>i'. blooms_consistent s' \<and> length (cores s') \<le> i'"
    by (rule update_cores_invariant [OF assms(1), where P = "\<lambda>_ s1 _. blooms_consistent s1"])
      (simp_all add: assms(2) core_iteration_blooms_consistent)
  then show ?thesis by blast
qed

lemma step_blooms_consistent:
  assumes st: "step R cfg s = Some (Inr (s', st))" and inv: "blooms_consistent s"
  shows "blooms_consistent s'"
proof -
  from st obtain s2 s3 b where
    shift: "shift_temperature R cfg (s\<lparr>tick := tick s + 1\<rparr>) = Inr s2"
    and s3: "s3 = (if (tick s + 1) mod 2 = 0 then emit_catalyst cfg s2 else collect_catalyst cfg s2)"
    and loop: "update_cores R cfg ((tick s + 1) mod 2 = 0) 0 s3 0 = Some (Inr (s', b))"
    by (rule step_Inr) simp
  have "blooms_consistent s3"
    using inv shift_temperature_frame [OF shift]
    by (simp add: s3 blooms_consistent_def emit_catalyst_def collect_catalyst_def Let_def)
  with loop show ?thesis by (rule update_cores_blooms_consistent)
qed

lemma initialize_cores_fresh:
  assumes "initialize_cores R cfg n positions cs r = Some (Inr (cs', r'))"
  shows "\<exists>new. cs' = cs @ new \<and> length new = n \<and> (\<forall>c \<in> set new. \<exists>x y. c = Core x y)"
  using assms
proof (induction n arbitrary: positions cs r)
  case 0
  then show ?case by simp
next
  case (Suc n)
  from Suc.prems obtain x y r1 where
    rec: "initialize_cores R cfg n (insert (x, y) positions) (cs @ [Core x y]) r1
            = Some (Inr (cs', r'))"
    by (auto split: option.splits sum.splits)
  from Suc.IH [OF rec] obtain new where
    "cs' = (cs @ [Core x y]) @ new" "length new = n" "\<forall>c \<in> set new. \<exists>x y. c = Core x y"
    by blast
  then show ?case
    by (intro exI [of _ "Core x y # new"]) auto
qed

lemma reset_Inr:
  assumes "reset R cfg now s = Some (Inr s')"
  obtains cs r3 where
    "0 \<le> GRID_SIZE cfg"
    and "initialize_cores R cfg (nat (INITIAL_CORES cfg)) {} []
           (snd (random_grid R (nat (GRID_SIZE cfg)) (nat (GRID_SIZE cfg))
              (snd (random_grid R (nat (GRID_SIZE cfg)) (nat (GRID_SIZE cfg)) (rng s)))))
         = Some (Inr (cs, r3))"
    and "s' = s\<lparr> tick := 0,
               temperature := fst (random_grid R (nat (GRID_SIZE cfg)) (nat (GRID_SIZE cfg)) (rng s)),
               catalyst_upper :=
                 grid_scale (fst (random_grid R (nat (GRID_SIZE cfg)) (nat (GRID_SIZE cfg))
                   (snd (random_grid R (nat (GRID_SIZE cfg)) (nat (GRID_SIZE cfg)) (rng s))))) 0.2,
               catalyst_lower := zeros (nat (GRID_SIZE cfg)) (nat (GRID_SIZE cfg)),
               cores := cs, rng := r3, sim_total_blooms := 0, bloom_locations := [],
               start_time := now \<rparr>"
  using assms
  by (auto simp: reset_def Let_def split_beta split: if_splits option.splits sum.splits)

lemma reset_blooms_consistent:
  assumes "reset R cfg now s = Some (Inr s')"
  shows "blooms_consistent s'"
proof -
  from assms obtain cs r3 where
    ic: "initialize_cores R cfg (nat (INITIAL_CORES cfg)) {} []
           (snd (random_grid R (nat (GRID_SIZE cfg)) (nat (GRID_SIZE cfg))
              (snd (random_grid R (nat (GRID_SIZE cfg)) (nat (GRID_SIZE cfg)) (rng s)))))
         = Some (Inr (cs, r3))"
    and s': "cores s' = cs" "sim_total_blooms s' = 0" "bloom_locations s' = []"
    by (rule reset_Inr) simp
  from initialize_cores_fresh [OF ic] have "\<forall>c \<in> set cs. \<exists>x y. c = Core x y" by auto
  then have "\<forall>c \<in> set cs. total_blooms c = 0"
    using Core_total_blooms by metis
  then have "sum_list (map total_blooms cs) = 0" by (rule sum_list_all_zero)
  with s' show ?thesis by (simp add: blooms_consistent_def)
qed

lemma step_bloom_world:
  "step counter_rng small_config bloom_world =
     Some (Inr (bloom_world_next,
       \<lparr> stats_tick = 2, stats_emit_mode = True, blooms_this_tick = 1,
         stats_total_blooms = 1, total_catalyst = 1 \<rparr>))"
  by code_simp

lemma reset_small_world_returns:
  "\<exists>s'. reset counter_rng small_config 0 small_world = Some (Inr s')"
proof -
  have "case reset counter_rng small_config 0 small_world of Some (Inr _) \<Rightarrow> True | _ \<Rightarrow> False"
    by code_simp
  then show ?thesis by (auto split: option.splits sum.splits)
qed

section \<open>The cores a step updates\<close>





















section \<open>Reset\<close>

lemma reset_small_world:
  "reset counter_rng small_config 0 small_world = Some (Inr small_world_reset)"
  by code_simp

lemma reset_small_world_reset:
  "reset counter_rng small_config 0 small_world_reset \<noteq> Some (Inr small_world_reset)"
  by code_simp

lemma reset_depends_on_stream:
  assumes "rng s2 = rng s" and "seed s2 = seed s"
  shows "reset R cfg now s2 = reset R cfg now s"
proof -
  have "s2\<lparr>tick := a, temperature := b, catalyst_upper := c, catalyst_lower := d, cores := e,
            rng := f, sim_total_blooms := g, bloom_locations := h, start_time := k\<rparr>
      = s\<lparr>tick := a, temperature := b, catalyst_upper := c, catalyst_lower := d, cores := e,
            rng := f, sim_total_blooms := g, bloom_locations := h, start_time := k\<rparr>"
    for a b c d e f g h k
    using assms(2) by (cases s; cases s2) simp
  then show ?thesis
    using assms(1)
    by (simp add: reset_def Let_def split_beta split: option.splits sum.splits prod.splits)
qed

lemma reset_seeded_object:
  "reset counter_rng small_config 0
     \<lparr> seed = 4, rng = 4, tick = 0, temperature = [], catalyst_upper = [],
       catalyst_lower = [], cores = [], sim_total_blooms = 0, bloom_locations = [],
       start_time = 0 \<rparr>
   = Some (Inr small_world)"
  by code_simp

section \<open>Determinism\<close>

lemma clock_update_last:
  "(s\<lparr>start_time := t\<rparr>)\<lparr>rng := r\<rparr> = (s\<lparr>rng := r\<rparr>)\<lparr>start_time := t\<rparr>"
  "(s\<lparr>start_time := t\<rparr>)\<lparr>cores := cs\<rparr> = (s\<lparr>cores := cs\<rparr>)\<lparr>start_time := t\<rparr>"
  "(s\<lparr>start_time := t\<rparr>)\<lparr>sim_total_blooms := n\<rparr> = (s\<lparr>sim_total_blooms := n\<rparr>)\<lparr>start_time := t\<rparr>"
  "(s\<lparr>start_time := t\<rparr>)\<lparr>bloom_locations := bl\<rparr> = (s\<lparr>bloom_locations := bl\<rparr>)\<lparr>start_time := t\<rparr>"
  "(s\<lparr>start_time := t\<rparr>)\<lparr>tick := k\<rparr> = (s\<lparr>tick := k\<rparr>)\<lparr>start_time := t\<rparr>"
  "(s\<lparr>start_time := t\<rparr>)\<lparr>temperature := g\<rparr> = (s\<lparr>temperature := g\<rparr>)\<lparr>start_time := t\<rparr>"
  "(s\<lparr>start_time := t\<rparr>)\<lparr>catalyst_upper := g\<rparr> = (s\<lparr>catalyst_upper := g\<rparr>)\<lparr>start_time := t\<rparr>"
  "(s\<lparr>start_time := t\<rparr>)\<lparr>catalyst_lower := g\<rparr> = (s\<lparr>catalyst_lower := g\<rparr>)\<lparr>start_time := t\<rparr>"
  by (cases s; simp)+

lemma spawn_new_cores_clock:
  "spawn_new_cores R cfg px py k (s\<lparr>start_time := t\<rparr>)
     = (case spawn_new_cores R cfg px py k s of
          Inl err \<Rightarrow> Inl err | Inr s1 \<Rightarrow> Inr (s1\<lparr>start_time := t\<rparr>))"
proof (induction k arbitrary: s)
  case 0
  then show ?case by simp
next
  case (Suc k)
  show ?case
    by (simp add: Let_def clock_update_last Suc.IH split: sum.splits prod.splits)
qed

lemma core_iteration_clock:
  "core_iteration R cfg e i (s\<lparr>start_time := t\<rparr>)
     = (case core_iteration R cfg e i s of
          Inl err \<Rightarrow> Inl err | Inr (d, s1) \<Rightarrow> Inr (d, s1\<lparr>start_time := t\<rparr>))"
  by (simp add: core_iteration_def Let_def clock_update_last spawn_new_cores_clock
      split: sum.splits prod.splits)

lemma update_cores_clock_Some:
  fixes s :: "'a simulation"
  assumes "update_cores R cfg e i s b = Some y"
  shows "update_cores R cfg e i (s\<lparr>start_time := t\<rparr>) b
           = Some (case y of Inl err \<Rightarrow> Inl err | Inr (s1, b1) \<Rightarrow> Inr (s1\<lparr>start_time := t\<rparr>, b1))"
proof -
  define Q where "Q = (\<lambda>R cfg e i (s :: 'a simulation) b (y :: error + 'a simulation \<times> int).
      update_cores R cfg e i (s\<lparr>start_time := t\<rparr>) b
        = Some (case y of Inl err \<Rightarrow> Inl err | Inr (s1, b1) \<Rightarrow> Inr (s1\<lparr>start_time := t\<rparr>, b1)))"
  have "Q R cfg e i s b y"
  proof (rule update_cores.raw_induct [where P = Q, OF _ assms])
    fix loop R cfg e i and s :: "'a simulation" and b y
    assume IH: "\<And>R1 cfg1 e1 i1 s1 b1 y1.
        loop R1 cfg1 e1 i1 s1 b1 = Some y1 \<Longrightarrow> Q R1 cfg1 e1 i1 s1 b1 y1"
      and eq: "(if i < length (cores s) then
                  (case core_iteration R cfg e i s of
                     Inl err \<Rightarrow> Some (Inl err)
                   | Inr (did_bloom, s') \<Rightarrow>
                       loop R cfg e (i + 1) s' (if did_bloom then b + 1 else b))
                else Some (Inr (s, b))) = Some y"
    show "Q R cfg e i s b y"
    proof (cases "i < length (cores s)")
      case False
      with eq have "y = Inr (s, b)" by simp
      with False show ?thesis
        unfolding Q_def by (subst update_cores.simps) simp
    next
      case True
      show ?thesis
      proof (cases "core_iteration R cfg e i s")
        case (Inl err)
        with True eq have "y = Inl err" by simp
        with True Inl show ?thesis
          unfolding Q_def by (subst update_cores.simps) (simp add: core_iteration_clock)
      next
        case (Inr p)
        obtain d s1 where p: "p = (d, s1)" by (cases p)
        with True Inr eq have "loop R cfg e (i + 1) s1 (if d then b + 1 else b) = Some y"
          by simp
        from IH [OF this] True Inr p show ?thesis
          unfolding Q_def by (subst update_cores.simps) (simp add: core_iteration_clock)
      qed
    qed
  qed
  then show ?thesis by (simp add: Q_def)
qed

lemma update_cores_clock:
  "update_cores R cfg e i (s\<lparr>start_time := t\<rparr>) b
     = (case update_cores R cfg e i s b of
          None \<Rightarrow> None
        | Some (Inl err) \<Rightarrow> Some (Inl err)
        | Some (Inr (s1, b1)) \<Rightarrow> Some (Inr (s1\<lparr>start_time := t\<rparr>, b1)))"
proof (cases "update_cores R cfg e i s b")
  case (Some y)
  from update_cores_clock_Some [OF this, of t] Some show ?thesis
    by (simp split: sum.splits prod.splits)
next
  case None
  have "update_cores R cfg e i (s\<lparr>start_time := t\<rparr>) b = None"
  proof (rule ccontr)
    assume "update_cores R cfg e i (s\<lparr>start_time := t\<rparr>) b \<noteq> None"
    then obtain y where "update_cores R cfg e i (s\<lparr>start_time := t\<rparr>) b = Some y" by blast
    from update_cores_clock_Some [OF this, of "start_time s"]
    have "update_cores R cfg e i s b \<noteq> None" by simp
    with None show False by simp
  qed
  with None show ?thesis by simp
qed

lemma transforms_clock:
  "shift_temperature R cfg (s\<lparr>start_time := t\<rparr>)
     = (case shift_temperature R cfg s of
          Inl err \<Rightarrow> Inl err
        | Inr s2 \<Rightarrow> Inr (s2\<lparr>start_time := t\<rparr>))"
  "emit_catalyst cfg (s\<lparr>start_time := t\<rparr>) = (emit_catalyst cfg s)\<lparr>start_time := t\<rparr>"
  "collect_catalyst cfg (s\<lparr>start_time := t\<rparr>) = (collect_catalyst cfg s)\<lparr>start_time := t\<rparr>"
  by (simp_all add: shift_temperature_def emit_catalyst_def collect_catalyst_def Let_def
      split_beta clock_update_last)

lemma step_clock:
  "step R cfg (s\<lparr>start_time := t\<rparr>)
     = (case step R cfg s of
          None \<Rightarrow> None
        | Some (Inl err) \<Rightarrow> Some (Inl err)
        | Some (Inr (s1, st)) \<Rightarrow> Some (Inr (s1\<lparr>start_time := t\<rparr>, st)))"
proof (cases "shift_temperature R cfg (s\<lparr>tick := tick s + 1\<rparr>)")
  case (Inl e)
  then show ?thesis
    by (simp add: step_def Let_def clock_update_last transforms_clock)
next
  case (Inr s2)
  then show ?thesis
    by (simp add: step_def Let_def clock_update_last transforms_clock update_cores_clock
        split: option.splits sum.splits prod.splits)
qed

lemma run_clock:
  "run R cfg k (s\<lparr>start_time := t\<rparr>)
     = (case run R cfg k s of
          None \<Rightarrow> None
        | Some (Inl err) \<Rightarrow> Some (Inl err)
        | Some (Inr (s1, sts)) \<Rightarrow> Some (Inr (s1\<lparr>start_time := t\<rparr>, sts)))"
proof (induction k arbitrary: s)
  case 0
  then show ?case by simp
next
  case (Suc k)
  show ?case
    by (simp add: step_clock Suc.IH split: option.splits sum.splits prod.splits)
qed

lemma reset_clock:
  "reset R cfg now s
     = (case reset R cfg 0 s of
          None \<Rightarrow> None
        | Some (Inl err) \<Rightarrow> Some (Inl err)
        | Some (Inr s1) \<Rightarrow> Some (Inr (s1\<lparr>start_time := now\<rparr>)))"
  by (simp add: reset_def Let_def split_beta split: option.splits sum.splits prod.splits)

lemma simulate_clock: "simulate R cfg seed_arg now k = simulate R cfg seed_arg 0 k"
proof -
  let ?s0 = "\<lparr> seed = (case seed_arg of None \<Rightarrow> RNG_SEED cfg | Some v \<Rightarrow> v),
               rng = seeded R (case seed_arg of None \<Rightarrow> RNG_SEED cfg | Some v \<Rightarrow> v),
               tick = 0, temperature = [], catalyst_upper = [],
               catalyst_lower = [], cores = [], sim_total_blooms = 0, bloom_locations = [],
               start_time = 0 \<rparr>"
  have c: "construct R cfg seed_arg t = reset R cfg t ?s0" for t
    by (simp add: construct_def Let_def)
  show ?thesis
    unfolding simulate_def c
    by (subst reset_clock) (simp add: run_clock split: option.splits sum.splits prod.splits)
qed

lemma simulate_small:
  "simulate counter_rng small_config (Some 4) 0 2 =
     Some (Inr [\<lparr> stats_tick = 1, stats_emit_mode = False, blooms_this_tick = 0,
                  stats_total_blooms = 0, total_catalyst = 3 / 20 \<rparr>,
                \<lparr> stats_tick = 2, stats_emit_mode = True, blooms_this_tick = 0,
                  stats_total_blooms = 0, total_catalyst = 3 / 20 \<rparr>])"
  by code_simp

section \<open>Steps return\<close>

lemma grid_at_in_range:
  assumes "square n a" and "0 \<le> y" and "y < int n" and "0 \<le> x" and "x < int n"
  shows "\<exists>v. grid_at a y x = Inr v"
proof -
  from assms have "length a = n" and "nat y < length a" by (auto simp: square_def)
  with assms have "length (a ! nat y) = n" by (auto simp: square_def)
  with assms \<open>length a = n\<close> show ?thesis
    by (simp add: grid_at_def Let_def)
qed

lemma update_new_core_no_bloom:
  assumes "2 \<le> TAU_TEMP cfg"
  shows "fst (update cfg (Core x y) n t u e) = False"
  using assms by (simp add: update_def Core_def Let_def)

lemma spawn_new_cores_returns:
  assumes "GRID_SIZE cfg \<noteq> 0"
  shows "\<exists>s1. spawn_new_cores R cfg px py k s = Inr s1"
  using assms
  by (induction k arbitrary: s) (simp_all add: randint_def Let_def split_beta)

lemma core_iteration_returns:
  assumes "0 < GRID_SIZE cfg"
    and "square (nat (GRID_SIZE cfg)) (temperature s)"
    and "square (nat (GRID_SIZE cfg)) (catalyst_upper s)"
    and "in_grid cfg (cores s ! i)"
  shows "\<exists>d s1. core_iteration R cfg e i s = Inr (d, s1)"
proof -
  let ?c = "cores s ! i"
  from assms(1,4) have pos: "0 \<le> core_y ?c" "core_y ?c < int (nat (GRID_SIZE cfg))"
    "0 \<le> core_x ?c" "core_x ?c < int (nat (GRID_SIZE cfg))"
    by (simp_all add: in_grid_def)
  from grid_at_in_range [OF assms(2) pos] obtain t where
    t: "grid_at (temperature s) (core_y ?c) (core_x ?c) = Inr t" by blast
  from grid_at_in_range [OF assms(3) pos] obtain u where
    u: "grid_at (catalyst_upper s) (core_y ?c) (core_x ?c) = Inr u" by blast
  obtain d c' where upd: "update cfg ?c (tick s) t u e = (d, c')"
    by (cases "update cfg ?c (tick s) t u e")
  from assms(1) have "GRID_SIZE cfg \<noteq> 0" by simp
  from spawn_new_cores_returns [OF this] obtain s1 where
    sp: "spawn_new_cores R cfg (core_x ?c) (core_y ?c) (nat (SPAWN_S cfg))
             (s\<lparr>cores := (cores s)[i := c'],
                sim_total_blooms := sim_total_blooms s + 1,
                bloom_locations := bloom_locations s @ [(core_x ?c, core_y ?c, tick s)]\<rparr>)
        = Inr s1"
    by blast
  show ?thesis
  proof (cases d)
    case True
    have "core_iteration R cfg e i s = Inr (True, s1)"
      unfolding core_iteration_Inr
      using t u upd True sp by (intro exI [of _ t] exI [of _ u] exI [of _ c']) simp
    then show ?thesis by blast
  next
    case False
    have "core_iteration R cfg e i s = Inr (False, s\<lparr>cores := (cores s)[i := c']\<rparr>)"
      unfolding core_iteration_Inr
      using t u upd False by (intro exI [of _ t] exI [of _ u] exI [of _ c']) simp
    then show ?thesis by blast
  qed
qed

lemma core_iteration_cores:
  assumes "core_iteration R cfg e i s = Inr (d, s1)"
  shows "\<exists>t u c' new.
           update cfg (cores s ! i) (tick s) t u e = (d, c') \<and>
           cores s1 = (cores s)[i := c'] @ new \<and>
           (\<not> d \<longrightarrow> new = []) \<and>
           (\<forall>c \<in> set new. \<exists>x y. c = Core (x mod GRID_SIZE cfg) (y mod GRID_SIZE cfg))"
proof -
  let ?c = "cores s ! i"
  from assms obtain t u c' where
    upd: "update cfg ?c (tick s) t u e = (d, c')"
    and res: "if d then
           spawn_new_cores R cfg (core_x ?c) (core_y ?c) (nat (SPAWN_S cfg))
             (s\<lparr>cores := (cores s)[i := c'],
                sim_total_blooms := sim_total_blooms s + 1,
                bloom_locations := bloom_locations s @ [(core_x ?c, core_y ?c, tick s)]\<rparr>)
             = Inr s1
         else s1 = s\<lparr>cores := (cores s)[i := c']\<rparr>"
    unfolding core_iteration_Inr by blast
  show ?thesis
  proof (cases d)
    case False
    with res upd show ?thesis
      by (intro exI [of _ t] exI [of _ u] exI [of _ c'] exI [of _ "[]"]) simp
  next
    case True
    with res have "spawn_new_cores R cfg (core_x ?c) (core_y ?c) (nat (SPAWN_S cfg))
             (s\<lparr>cores := (cores s)[i := c'],
                sim_total_blooms := sim_total_blooms s + 1,
                bloom_locations := bloom_locations s @ [(core_x ?c, core_y ?c, tick s)]\<rparr>)
             = Inr s1" by simp
    from spawn_new_cores_cores [OF this] obtain new where
      "cores s1 = (cores s)[i := c'] @ new"
      "\<forall>c \<in> set new. \<exists>dx dy.
          c = Core ((core_x ?c + dx) mod GRID_SIZE cfg) ((core_y ?c + dy) mod GRID_SIZE cfg) \<and>
          (draws_in_range R \<longrightarrow> - 5 \<le> dx \<and> dx \<le> 5 \<and> - 5 \<le> dy \<and> dy \<le> 5)"
      by auto
    then have "cores s1 = (cores s)[i := c'] @ new \<and>
        (\<forall>c \<in> set new. \<exists>x y. c = Core (x mod GRID_SIZE cfg) (y mod GRID_SIZE cfg))"
      by blast
    with upd True show ?thesis
      by (intro exI [of _ t] exI [of _ u] exI [of _ c'] exI [of _ new]) simp
  qed
qed

lemma in_grid_Core_mod:
  "0 < GRID_SIZE cfg \<Longrightarrow> in_grid cfg (Core (x mod GRID_SIZE cfg) (y mod GRID_SIZE cfg))"
  by (simp add: in_grid_def Core_def)

lemma in_grid_update:
  assumes "update cfg c n t u e = (d, c')" and "in_grid cfg c"
  shows "in_grid cfg c'"
  using assms update_total_blooms(2,3) [OF assms(1)] by (simp add: in_grid_def)

lemma core_iteration_in_grid:
  assumes it: "core_iteration R cfg e i s = Inr (d, s1)"
    and g: "0 < GRID_SIZE cfg"
    and i: "i < length (cores s)"
    and all: "\<forall>c \<in> set (cores s). in_grid cfg c"
  shows "\<forall>c \<in> set (cores s1). in_grid cfg c"
proof -
  from core_iteration_cores [OF it] obtain t u c' new where
    upd: "update cfg (cores s ! i) (tick s) t u e = (d, c')"
    and cs: "cores s1 = (cores s)[i := c'] @ new"
    and new: "\<forall>c \<in> set new. \<exists>x y. c = Core (x mod GRID_SIZE cfg) (y mod GRID_SIZE cfg)"
    by blast
  from all i have "in_grid cfg (cores s ! i)" by simp
  with upd have c': "in_grid cfg c'" by (rule in_grid_update)
  have "set ((cores s)[i := c']) \<subseteq> insert c' (set (cores s))"
    by (rule set_update_subset_insert)
  with all c' have old: "\<forall>c \<in> set ((cores s)[i := c']). in_grid cfg c" by blast
  from new g have "\<forall>c \<in> set new. in_grid cfg c"
    using in_grid_Core_mod by metis
  with old show ?thesis by (auto simp: cs)
qed

lemma update_cores_returns_new_cores:
  fixes s :: "'a simulation"
  assumes g: "0 < GRID_SIZE cfg" and tau: "2 \<le> TAU_TEMP cfg"
  shows "square (nat (GRID_SIZE cfg)) (temperature s) \<Longrightarrow>
         square (nat (GRID_SIZE cfg)) (catalyst_upper s) \<Longrightarrow>
         \<forall>c \<in> set (cores s). in_grid cfg c \<Longrightarrow>
         \<forall>j. i \<le> j \<and> j < length (cores s) \<longrightarrow> (\<exists>x y. cores s ! j = Core x y) \<Longrightarrow>
         \<exists>s' b'. update_cores R cfg e i s b = Some (Inr (s', b'))"
proof (induction "length (cores s) - i" arbitrary: i s b)
  case 0
  then have "\<not> i < length (cores s)" by simp
  then show ?case by (subst update_cores.simps) simp
next
  case (Suc k)
  then have i: "i < length (cores s)" by simp
  with Suc.prems(3) have "in_grid cfg (cores s ! i)" by simp
  from core_iteration_returns [OF g Suc.prems(1,2) this, of R e]
  obtain d s1 where it: "core_iteration R cfg e i s = Inr (d, s1)" by blast
  from core_iteration_cores [OF it] obtain t u c' new where
    upd: "update cfg (cores s ! i) (tick s) t u e = (d, c')"
    and cs: "cores s1 = (cores s)[i := c'] @ new"
    and quiet: "\<not> d \<longrightarrow> new = []"
    by blast
  from Suc.prems(4) i obtain x y where "cores s ! i = Core x y" by blast
  with upd update_new_core_no_bloom [OF tau, of x y "tick s" t u e] have d: "\<not> d" by simp
  with quiet cs have cs1: "cores s1 = (cores s)[i := c']" by simp
  note fr = core_iteration_frame [OF it]
  have 1: "square (nat (GRID_SIZE cfg)) (temperature s1)"
    and 2: "square (nat (GRID_SIZE cfg)) (catalyst_upper s1)"
    using fr Suc.prems(1,2) by simp_all
  have 3: "\<forall>c \<in> set (cores s1). in_grid cfg c"
    using core_iteration_in_grid [OF it g i Suc.prems(3)] .
  have 4: "\<forall>j. i + 1 \<le> j \<and> j < length (cores s1) \<longrightarrow> (\<exists>x y. cores s1 ! j = Core x y)"
    using Suc.prems(4) by (simp add: cs1)
  have k: "k = length (cores s1) - (i + 1)" using Suc.hyps(2) by (simp add: cs1)
  from Suc.hyps(1) [OF k 1 2 3 4]
  obtain s' b' where "update_cores R cfg e (i + 1) s1 b = Some (Inr (s', b'))" by blast
  with i it d show ?case by (subst update_cores.simps) simp
qed

lemma update_cores_returns:
  fixes s :: "'a simulation"
  assumes g: "0 < GRID_SIZE cfg" and tau: "2 \<le> TAU_TEMP cfg"
  shows "square (nat (GRID_SIZE cfg)) (temperature s) \<Longrightarrow>
         square (nat (GRID_SIZE cfg)) (catalyst_upper s) \<Longrightarrow>
         \<forall>c \<in> set (cores s). in_grid cfg c \<Longrightarrow>
         n0 \<le> length (cores s) \<Longrightarrow> i \<le> n0 \<Longrightarrow>
         \<forall>j. n0 \<le> j \<and> j < length (cores s) \<longrightarrow> (\<exists>x y. cores s ! j = Core x y) \<Longrightarrow>
         \<exists>s' b'. update_cores R cfg e i s b = Some (Inr (s', b'))"
proof (induction "n0 - i" arbitrary: i s b)
  case 0
  then have "i = n0" by simp
  with 0 update_cores_returns_new_cores [OF g tau, of s i R e b] show ?case by simp
next
  case (Suc k)
  then have i: "i < length (cores s)" and i0: "i < n0" by simp_all
  with Suc.prems(3) have "in_grid cfg (cores s ! i)" by simp
  from core_iteration_returns [OF g Suc.prems(1,2) this, of R e]
  obtain d s1 where it: "core_iteration R cfg e i s = Inr (d, s1)" by blast
  from core_iteration_cores [OF it] obtain t u c' new where
    cs: "cores s1 = (cores s)[i := c'] @ new"
    and new: "\<forall>c \<in> set new. \<exists>x y. c = Core (x mod GRID_SIZE cfg) (y mod GRID_SIZE cfg)"
    by blast
  note fr = core_iteration_frame [OF it]
  have 1: "square (nat (GRID_SIZE cfg)) (temperature s1)"
    and 2: "square (nat (GRID_SIZE cfg)) (catalyst_upper s1)"
    using fr Suc.prems(1,2) by simp_all
  have 3: "\<forall>c \<in> set (cores s1). in_grid cfg c"
    using core_iteration_in_grid [OF it g i Suc.prems(3)] .
  have 4: "n0 \<le> length (cores s1)" using Suc.prems(4) by (simp add: cs)
  have 5: "i + 1 \<le> n0" using i0 by simp
  have 6: "\<forall>j. n0 \<le> j \<and> j < length (cores s1) \<longrightarrow> (\<exists>x y. cores s1 ! j = Core x y)"
  proof (intro allI impI)
    fix j assume j: "n0 \<le> j \<and> j < length (cores s1)"
    show "\<exists>x y. cores s1 ! j = Core x y"
    proof (cases "j < length (cores s)")
      case True
      with j i0 have "cores s1 ! j = cores s ! j" by (simp add: cs nth_append)
      with Suc.prems(6) j True show ?thesis by simp
    next
      case False
      with j have "cores s1 ! j \<in> set new" by (auto simp: cs nth_append)
      with new show ?thesis by blast
    qed
  qed
  have k: "k = n0 - (i + 1)" using Suc.hyps(2) by simp
  from Suc.hyps(1) [OF k 1 2 3 4 5 6]
  obtain s' b' where
    "update_cores R cfg e (i + 1) s1 (if d then b + 1 else b) = Some (Inr (s', b'))"
    by blast
  with i it show ?case by (subst update_cores.simps) simp
qed

lemma transforms_keep_shape:
  fixes s :: "'a simulation" and R :: "'a random_state"
  assumes "valid_state cfg s"
  shows "\<exists>s2. shift_temperature R cfg (s\<lparr>tick := tick s + 1\<rparr>) = Inr s2 \<and>
           valid_state cfg (emit_catalyst cfg s2) \<and>
           valid_state cfg (collect_catalyst cfg s2)"
proof -
  let ?n = "nat (GRID_SIZE cfg)"
  let ?s1 = "s\<lparr>tick := tick s + 1\<rparr>"
  from assms(1) have g: "0 < GRID_SIZE cfg" and gn: "GRID_SIZE cfg = int ?n"
    and t: "square ?n (temperature s)" and u: "square ?n (catalyst_upper s)"
    and l: "square ?n (catalyst_lower s)" and c: "\<forall>c \<in> set (cores s). in_grid cfg c"
    by (simp_all add: valid_state_def)
  from g have pos: "0 < ?n" by simp
  from t have t1: "square ?n (temperature ?s1)" by simp
  from shift_temperature_returns [OF gn t1 pos, of R]
  obtain s2 where shift: "shift_temperature R cfg ?s1 = Inr s2" by blast
  have t2: "square ?n (temperature s2)"
    using shift_temperature_cells(1) [OF gn t1 pos shift] .
  have fr: "catalyst_upper s2 = catalyst_upper s" "catalyst_lower s2 = catalyst_lower s"
    "cores s2 = cores s"
    using shift_temperature_frame [OF shift] by simp_all
  have sh: "catalyst_shape cfg s2"
    using g u l by (simp add: catalyst_shape_def fr)
  from emit_catalyst_mass(2) [OF sh] t2 c
  have 1: "valid_state cfg (emit_catalyst cfg s2)"
    by (simp add: valid_state_def catalyst_shape_def emit_catalyst_def Let_def fr)
  have "square ?n (advect_right (apply_convolution cfg
      (grid_add (catalyst_upper s) (catalyst_lower s)) (KERNEL_3x3 cfg)) (ADVECT_ALPHA cfg))"
    using u l
    by (intro square_advect_right square_apply_convolution) (simp add: grid_add_def square_map2)
  with g t2 c l have 2: "valid_state cfg (collect_catalyst cfg s2)"
    by (simp add: valid_state_def collect_catalyst_def Let_def fr square_fill_zero)
  from shift 1 2 show ?thesis by blast
qed

lemma step_keeps_valid_state:
  assumes v: "valid_state cfg s" and st: "step R cfg s = Some (Inr (s', st))"
  shows "valid_state cfg s'"
proof -
  let ?e = "(tick s + 1) mod 2 = 0"
  from st obtain s2 s3 b where
    shift: "shift_temperature R cfg (s\<lparr>tick := tick s + 1\<rparr>) = Inr s2"
    and s3: "s3 = (if ?e then emit_catalyst cfg s2 else collect_catalyst cfg s2)"
    and loop: "update_cores R cfg ?e 0 s3 0 = Some (Inr (s', b))"
    by (rule step_Inr) simp
  have v3: "valid_state cfg s3"
    using transforms_keep_shape [OF v, of R] shift by (auto simp: s3)
  then have g: "0 < GRID_SIZE cfg" by (simp add: valid_state_def)
  have "\<exists>i'. (\<forall>c \<in> set (cores s'). in_grid cfg c) \<and> length (cores s') \<le> i'"
  proof (rule update_cores_invariant [OF loop, where P = "\<lambda>_ s1 _. \<forall>c \<in> set (cores s1). in_grid cfg c"])
    show "\<forall>c \<in> set (cores s3). in_grid cfg c" using v3 by (simp add: valid_state_def)
  next
    fix i s0 b0 d s1
    assume "\<forall>c \<in> set (cores s0). in_grid cfg c" "i < length (cores s0)"
      "core_iteration R cfg ?e i s0 = Inr (d, s1)"
    then show "\<forall>c \<in> set (cores s1). in_grid cfg c"
      using core_iteration_in_grid [OF _ g] by blast
  qed
  with update_cores_frame [OF loop] v3 show ?thesis
    by (simp add: valid_state_def)
qed

lemma step_returns:
  fixes s :: "'a simulation"
  assumes v: "valid_state cfg s" and tau: "2 \<le> TAU_TEMP cfg"
  shows "\<exists>s' st. step R cfg s = Some (Inr (s', st))"
proof -
  let ?e = "(tick s + 1) mod 2 = 0"
  from transforms_keep_shape [OF v, of R] obtain s2 where
    shift: "shift_temperature R cfg (s\<lparr>tick := tick s + 1\<rparr>) = Inr s2"
    and ve: "valid_state cfg (emit_catalyst cfg s2)"
    and vc: "valid_state cfg (collect_catalyst cfg s2)"
    by blast
  define s3 where "s3 = (if ?e then emit_catalyst cfg s2 else collect_catalyst cfg s2)"
  have v3: "valid_state cfg s3"
    using ve vc by (simp add: s3_def)
  then have g: "0 < GRID_SIZE cfg"
    and 1: "square (nat (GRID_SIZE cfg)) (temperature s3)"
    and 2: "square (nat (GRID_SIZE cfg)) (catalyst_upper s3)"
    and 3: "\<forall>c \<in> set (cores s3). in_grid cfg c"
    unfolding valid_state_def by blast+
  have 4: "length (cores s3) \<le> length (cores s3)" and 5: "0 \<le> length (cores s3)"
    by simp_all
  have 6: "\<forall>j. length (cores s3) \<le> j \<and> j < length (cores s3)
              \<longrightarrow> (\<exists>x y. cores s3 ! j = Core x y)"
    by auto
  from update_cores_returns [OF g tau 1 2 3 4 5 6]
  obtain s' b' where "update_cores R cfg ?e 0 s3 0 = Some (Inr (s', b'))" by blast
  then show ?thesis
    using shift by (simp add: step_def Let_def s3_def)
qed

lemma run_returns:
  assumes tau: "2 \<le> TAU_TEMP cfg"
  shows "valid_state cfg s \<Longrightarrow> \<exists>s' sts. run R cfg k s = Some (Inr (s', sts))"
proof (induction k arbitrary: s)
  case 0
  then show ?case by simp
next
  case (Suc k)
  from step_returns [OF Suc.prems tau, of R] obtain s1 st where
    one: "step R cfg s = Some (Inr (s1, st))" by blast
  from step_keeps_valid_state [OF Suc.prems one] have "valid_state cfg s1" .
  from Suc.IH [OF this] obtain s' sts where "run R cfg k s1 = Some (Inr (s', sts))" by blast
  with one show ?case by simp
qed

section \<open>Reset builds valid states\<close>

lemma draw_free_position_in_grid:
  fixes R :: "'a random_state"
  assumes dr: "draws_in_range R"
    and run: "draw_free_position R cfg positions r = Some (Inr ((x, y), r'))"
  shows "0 \<le> x \<and> x < GRID_SIZE cfg \<and> 0 \<le> y \<and> y < GRID_SIZE cfg \<and> (x, y) \<notin> positions"
proof -
  define Q where "Q = (\<lambda>R0 (cfg0 :: config) positions0 (r0 :: 'a) (res :: error + (int \<times> int) \<times> 'a).
      R0 = R \<longrightarrow> (\<forall>x y r'. res = Inr ((x, y), r') \<longrightarrow>
        0 \<le> x \<and> x < GRID_SIZE cfg0 \<and> 0 \<le> y \<and> y < GRID_SIZE cfg0 \<and> (x, y) \<notin> positions0))"
  have "Q R cfg positions r (Inr ((x, y), r'))"
  proof (rule draw_free_position.raw_induct [where P = Q, OF _ run])
    fix loop R0 and cfg0 :: config and positions0 and r0 :: 'a and res
    assume IH: "\<And>R1 cfg1 positions1 r1 res1.
        loop R1 cfg1 positions1 r1 = Some res1 \<Longrightarrow> Q R1 cfg1 positions1 r1 res1"
      and eq: "(case randint R0 0 (GRID_SIZE cfg0) r0 of
                  Inl err \<Rightarrow> Some (Inl err)
                | Inr (x, r1) \<Rightarrow>
                    (case randint R0 0 (GRID_SIZE cfg0) r1 of
                       Inl err \<Rightarrow> Some (Inl err)
                     | Inr (y, r2) \<Rightarrow>
                         if (x, y) \<notin> positions0 then Some (Inr ((x, y), r2))
                         else loop R0 cfg0 positions0 r2)) = Some res"
    show "Q R0 cfg0 positions0 r0 res"
      unfolding Q_def
    proof (intro impI allI)
      fix x y r'
      assume R0: "R0 = R" and res: "res = Inr ((x, y), r')"
      show "0 \<le> x \<and> x < GRID_SIZE cfg0 \<and> 0 \<le> y \<and> y < GRID_SIZE cfg0 \<and> (x, y) \<notin> positions0"
      proof (cases "0 < GRID_SIZE cfg0")
        case False
        with eq res show ?thesis by (simp add: randint_def)
      next
        case True
        let ?x = "fst (randint1 R 0 (GRID_SIZE cfg0) r0)"
        let ?r1 = "snd (randint1 R 0 (GRID_SIZE cfg0) r0)"
        let ?y = "fst (randint1 R 0 (GRID_SIZE cfg0) ?r1)"
        let ?r2 = "snd (randint1 R 0 (GRID_SIZE cfg0) ?r1)"
        from dr True have b: "0 \<le> fst (randint1 R 0 (GRID_SIZE cfg0) q) \<and>
            fst (randint1 R 0 (GRID_SIZE cfg0) q) < GRID_SIZE cfg0" for q
          by (simp add: draws_in_range_def)
        show ?thesis
        proof (cases "(?x, ?y) \<notin> positions0")
          case free: True
          with eq True R0 res have "x = ?x" "y = ?y"
            by (simp_all add: randint_def split_beta)
          with b [of r0] b [of ?r1] free show ?thesis by simp
        next
          case taken: False
          with eq True R0 have "loop R0 cfg0 positions0 ?r2 = Some res"
            by (simp add: randint_def split_beta)
          from IH [OF this] R0 res show ?thesis by (simp add: Q_def)
        qed
      qed
    qed
  qed
  then show ?thesis by (simp add: Q_def)
qed

lemma initialize_cores_in_grid:
  assumes dr: "draws_in_range R"
  shows "initialize_cores R cfg n positions cs r = Some (Inr (cs', r')) \<Longrightarrow>
         \<forall>c \<in> set cs. in_grid cfg c \<Longrightarrow>
         \<forall>c \<in> set cs'. in_grid cfg c"
proof (induction n arbitrary: positions cs r)
  case 0
  then show ?case by simp
next
  case (Suc n)
  from Suc.prems(1) obtain x y r1 where
    d: "draw_free_position R cfg positions r = Some (Inr ((x, y), r1))"
    and rec: "initialize_cores R cfg n (insert (x, y) positions) (cs @ [Core x y]) r1
            = Some (Inr (cs', r'))"
    by (auto split: option.splits sum.splits)
  from draw_free_position_in_grid [OF dr d] have "in_grid cfg (Core x y)"
    by (simp add: in_grid_def Core_def)
  with Suc.prems(2) have "\<forall>c \<in> set (cs @ [Core x y]). in_grid cfg c" by simp
  from Suc.IH [OF rec this] show ?case .
qed

lemma random_grid_square: "length (fst (random_grid R n m r)) = n \<and>
    (\<forall>row \<in> set (fst (random_grid R n m r)). length row = m)"
  by (induction n arbitrary: r) (simp_all add: split_beta Let_def random_vec_length)

lemma reset_builds_valid_state:
  assumes dr: "draws_in_range R" and g: "0 < GRID_SIZE cfg"
    and rs: "reset R cfg now s = Some (Inr s')"
  shows "valid_state cfg s'"
proof -
  let ?n = "nat (GRID_SIZE cfg)"
  from rs obtain cs r3 where
    ic: "initialize_cores R cfg (nat (INITIAL_CORES cfg)) {} []
           (snd (random_grid R ?n ?n (snd (random_grid R ?n ?n (rng s))))) = Some (Inr (cs, r3))"
    and s': "s' = s\<lparr> tick := 0,
               temperature := fst (random_grid R ?n ?n (rng s)),
               catalyst_upper :=
                 grid_scale (fst (random_grid R ?n ?n (snd (random_grid R ?n ?n (rng s))))) 0.2,
               catalyst_lower := zeros ?n ?n,
               cores := cs, rng := r3, sim_total_blooms := 0, bloom_locations := [],
               start_time := now \<rparr>"
    by (rule reset_Inr)
  have sq: "square ?n (fst (random_grid R ?n ?n q))" for q
    using random_grid_square [of R ?n ?n q] by (simp add: square_def)
  have z: "square ?n (zeros ?n ?n)" by (simp add: square_def zeros_def)
  have "\<forall>c \<in> set cs. in_grid cfg c"
    using initialize_cores_in_grid [OF dr ic] by simp
  with g sq z show ?thesis
    by (simp add: valid_state_def s' square_scale)
qed

section \<open>Temperatures stay in the unit interval\<close>

lemma unit_grid_shift_temperature:
  assumes dr: "draws_in_range R" and u: "unit_grid (temperature s)"
    and shift: "shift_temperature R cfg s = Inr s2"
  shows "unit_grid (temperature s2)"
proof -
  let ?col = "fst (random_vec R (nat (GRID_SIZE cfg)) (rng s))"
  let ?rolled = "roll_axis1 (temperature s)"
  from shift have new: "temperature s2 = map2 (\<lambda>row v. row[0 := v]) ?rolled ?col \<or>
      (length ?col = 1 \<and> temperature s2 = map (\<lambda>row. row[0 := hd ?col]) ?rolled)"
    by (auto simp: shift_temperature_def Let_def split_beta split: if_splits)
  have colb: "\<forall>v \<in> set ?col. 0 \<le> v \<and> v < 1"
    using random_vec_bounds [OF dr] .
  have rolled: "\<forall>w \<in> set ?rolled. \<forall>v \<in> set w. 0 \<le> v \<and> v < 1"
  proof (intro ballI)
    fix w v assume "w \<in> set ?rolled" and v: "v \<in> set w"
    then obtain w0 where w0: "w0 \<in> set (temperature s)" and "w = roll_row w0"
      by (auto simp: roll_axis1_def)
    with v have "v \<in> set w0"
      by (cases "w0 = []") (auto simp: roll_row_def dest: in_set_butlastD)
    with u w0 show "0 \<le> v \<and> v < 1" by (auto simp: unit_grid_def)
  qed
  have cell: "0 \<le> v \<and> v < 1" if "w0 \<in> set ?rolled" "x \<in> set ?col" "v \<in> set (w0[0 := x])"
    for w0 x v
  proof -
    have "set (w0[0 := x]) \<subseteq> insert x (set w0)" by (rule set_update_subset_insert)
    with that(3) have "v = x \<or> v \<in> set w0" by auto
    moreover from that(1) rolled have "\<forall>v \<in> set w0. 0 \<le> v \<and> v < 1" by blast
    ultimately show ?thesis using colb that(2) by blast
  qed
  from new show ?thesis
  proof
    assume eq: "temperature s2 = map2 (\<lambda>row v. row[0 := v]) ?rolled ?col"
    show ?thesis
      unfolding unit_grid_def eq
    proof (intro ballI)
      fix w v assume "w \<in> set (map2 (\<lambda>row v. row[0 := v]) ?rolled ?col)" and v: "v \<in> set w"
      then obtain w0 x where "w0 \<in> set ?rolled" "x \<in> set ?col" "w = w0[0 := x]"
        by (auto elim!: in_set_zipE)
      with v cell show "0 \<le> v \<and> v < 1" by blast
    qed
  next
    assume "length ?col = 1 \<and> temperature s2 = map (\<lambda>row. row[0 := hd ?col]) ?rolled"
    then have one: "length ?col = 1"
      and eq: "temperature s2 = map (\<lambda>row. row[0 := hd ?col]) ?rolled"
      by simp_all
    from one have h: "hd ?col \<in> set ?col" by (cases ?col) auto
    show ?thesis
      unfolding unit_grid_def eq
    proof (intro ballI)
      fix w v assume "w \<in> set (map (\<lambda>row. row[0 := hd ?col]) ?rolled)" and v: "v \<in> set w"
      then obtain w0 where "w0 \<in> set ?rolled" "w = w0[0 := hd ?col]"
        by auto
      with v cell h show "0 \<le> v \<and> v < 1" by blast
    qed
  qed
qed

lemma random_grid_unit:
  assumes "draws_in_range R"
  shows "unit_grid (fst (random_grid R n m r))"
  using random_vec_bounds [OF assms]
  by (induction n arbitrary: r) (simp_all add: unit_grid_def split_beta Let_def)

lemma reachable_temperature_unit:
  assumes dr: "draws_in_range R" and re: "reachable R s"
  shows "unit_grid (temperature s)"
  using re
proof (induction rule: reachable.induct)
  case (constructed cfg seed_arg now s)
  from constructed obtain s0 where "reset R cfg now s0 = Some (Inr s)"
    by (auto simp: construct_def Let_def)
  then show ?case
    by (rule reset_Inr) (simp add: random_grid_unit [OF dr])
next
  case (stepped s cfg s' st)
  from stepped(2) obtain s2 s3 b where
    shift: "shift_temperature R cfg (s\<lparr>tick := tick s + 1\<rparr>) = Inr s2"
    and s3: "s3 = (if (tick s + 1) mod 2 = 0 then emit_catalyst cfg s2 else collect_catalyst cfg s2)"
    and loop: "update_cores R cfg ((tick s + 1) mod 2 = 0) 0 s3 0 = Some (Inr (s', b))"
    by (rule step_Inr) simp
  have "temperature s3 = temperature s2"
    by (simp add: s3 emit_catalyst_def collect_catalyst_def Let_def)
  moreover have "unit_grid (temperature s2)"
    using stepped(3) by (intro unit_grid_shift_temperature [OF dr _ shift]) simp
  ultimately show ?case using update_cores_frame [OF loop] by simp
next
  case (was_reset s cfg now s')
  from was_reset(2) show ?case
    by (rule reset_Inr) (simp add: random_grid_unit [OF dr])
qed

lemma run_mass:
  assumes "normalized_3x3 (KERNEL_3x3 cfg)"
    and "catalyst_shape cfg s"
    and "run R cfg k s = Some (Inr (s', sts))"
  shows "total_mass s' = total_mass s \<and>
         length sts = k \<and>
         (\<forall>st \<in> set sts. total_catalyst st = total_mass s) \<and>
         catalyst_shape cfg s'"
  using assms(2,3)
proof (induction k arbitrary: s s' sts)
  case 0
  then show ?case by simp
next
  case (Suc k)
  from Suc.prems(2) obtain s1 st rest where
    one: "step R cfg s = Some (Inr (s1, st))"
    and more: "run R cfg k s1 = Some (Inr (s', rest))"
    and sts: "sts = st # rest"
    by (auto split: option.splits sum.splits)
  from step_mass [OF assms(1) Suc.prems(1) one]
  have m1: "total_mass s1 = total_mass s" and c1: "total_catalyst st = total_mass s"
    and sh1: "catalyst_shape cfg s1"
    by simp_all
  from Suc.IH [OF sh1 more] m1 c1 sts show ?case by simp
qed

lemma run_keeps_valid_state:
  "valid_state cfg s \<Longrightarrow> run R cfg k s = Some (Inr (s', sts)) \<Longrightarrow> valid_state cfg s'"
proof (induction k arbitrary: s s' sts)
  case 0
  then show ?case by simp
next
  case (Suc k)
  from Suc.prems(2) obtain s1 st rest where
    one: "step R cfg s = Some (Inr (s1, st))"
    and more: "run R cfg k s1 = Some (Inr (s', rest))"
    by (auto split: option.splits sum.splits)
  from step_keeps_valid_state [OF Suc.prems(1) one] more show ?case
    by (rule Suc.IH)
qed

lemma small_world_valid: "valid_state small_config small_world"
  by (simp add: valid_state_def in_grid_def square_def small_world_def small_config_def Core_def)

lemma step_mode:
  assumes "step R cfg s = Some (Inr (s', st))"
  shows "tick s' = tick s + 1 \<and> stats_tick st = tick s + 1 \<and>
    stats_emit_mode st = ((tick s + 1) mod 2 = 0) \<and>
    ((tick s + 1) mod 2 = 0 \<longrightarrow>
       catalyst_lower s' =
         grid_add (catalyst_lower s) (grid_scale (catalyst_upper s) (EMIT_FRACTION cfg)) \<and>
       catalyst_upper s' =
         grid_sub (catalyst_upper s) (grid_scale (catalyst_upper s) (EMIT_FRACTION cfg))) \<and>
    ((tick s + 1) mod 2 \<noteq> 0 \<longrightarrow>
       catalyst_lower s' = fill_zero (catalyst_lower s) \<and>
       catalyst_upper s' =
         advect_right
           (apply_convolution cfg (grid_add (catalyst_upper s) (catalyst_lower s)) (KERNEL_3x3 cfg))
           (ADVECT_ALPHA cfg))"
proof -
  from assms obtain s2 s3 b where
    shift: "shift_temperature R cfg (s\<lparr>tick := tick s + 1\<rparr>) = Inr s2"
    and s3: "s3 = (if (tick s + 1) mod 2 = 0 then emit_catalyst cfg s2 else collect_catalyst cfg s2)"
    and loop: "update_cores R cfg ((tick s + 1) mod 2 = 0) 0 s3 0 = Some (Inr (s', b))"
    and stats: "stats_tick st = tick s'" "stats_emit_mode st = ((tick s + 1) mod 2 = 0)"
    by (rule step_Inr) simp
  note fr = update_cores_frame [OF loop]
  note shift_temperature_frame = shift_temperature_frame [OF shift]
  have t3: "tick s3 = tick s + 1"
    by (simp add: s3 emit_catalyst_def collect_catalyst_def Let_def shift_temperature_frame)
  have e: "(tick s + 1) mod 2 = 0 \<Longrightarrow>
      catalyst_lower s3 =
         grid_add (catalyst_lower s) (grid_scale (catalyst_upper s) (EMIT_FRACTION cfg)) \<and>
      catalyst_upper s3 =
         grid_sub (catalyst_upper s) (grid_scale (catalyst_upper s) (EMIT_FRACTION cfg))"
    by (simp add: s3 emit_catalyst_def Let_def shift_temperature_frame)
  have c: "(tick s + 1) mod 2 \<noteq> 0 \<Longrightarrow>
      catalyst_lower s3 = fill_zero (catalyst_lower s) \<and>
      catalyst_upper s3 =
         advect_right
           (apply_convolution cfg (grid_add (catalyst_upper s) (catalyst_lower s)) (KERNEL_3x3 cfg))
           (ADVECT_ALPHA cfg)"
    by (simp add: s3 collect_catalyst_def Let_def shift_temperature_frame)
  from fr t3 stats e c show ?thesis by simp
qed

section \<open>The catalyst transforms cell by cell\<close>

lemma nth_roll_row_mod:
  assumes "j < length xs"
  shows "roll_row xs ! j = xs ! nat ((int j - 1) mod int (length xs))"
proof (cases j)
  case 0
  from assms have ne: "xs \<noteq> []" by auto
  from ne have "0 < int (length xs)" by simp
  then have "(- 1) mod int (length xs) = int (length xs) - 1"
    by (rule zmod_minus1)
  then show ?thesis
    using 0 ne by (simp add: roll_row_def last_conv_nth nat_diff_distrib')
next
  case (Suc k)
  then have "(int j - 1) mod int (length xs) = int k"
    using assms by simp
  then show ?thesis
    using Suc assms nth_roll_row [of j xs] by simp
qed

lemma wrap_padded_square:
  assumes sq: "square n a" and pos: "0 < n"
  shows "wrap_padded a w p q = a ! nat ((int p - int w) mod int n) ! nat ((int q - int w) mod int n)"
proof -
  from sq have len: "length a = n" by (simp add: square_def)
  have "nat ((int p - int w) mod int n) < n"
    using pos by (simp add: nat_less_iff)
  with len have "a ! nat ((int p - int w) mod int n) \<in> set a" by simp
  with sq have "length (a ! nat ((int p - int w) mod int n)) = n" by (simp add: square_def)
  then show ?thesis by (simp add: wrap_padded_def Let_def len)
qed

lemma apply_convolution_cell:
  assumes sq: "square n a" and g: "GRID_SIZE cfg = int n"
    and k: "length kern = 3" "\<forall>row \<in> set kern. length row = 3"
    and i: "i < n" and j: "j < n"
  shows "apply_convolution cfg a kern ! i ! j = spec_diffused_cell (\<lambda>p q. a ! p ! q) kern n i j"
proof -
  from i have pos: "0 < n" by simp
  from sq have len: "length a = n" by (simp add: square_def)
  with i sq have leni: "length (a ! i) = n" by (simp add: square_def)
  from k have "kern \<noteq> []" by auto
  then have "hd kern \<in> set kern" by simp
  with k have hk: "length (hd kern) = 3" by simp
  have "apply_convolution cfg a kern ! i ! j = window_sum a kern 1 i j"
    using i j len leni g k by (simp add: apply_convolution_def Let_def)
  also have "\<dots> = spec_diffused_cell (\<lambda>p q. a ! p ! q) kern n i j"
    by (simp add: window_sum_def spec_diffused_cell_def k hk wrap_padded_square [OF sq pos]
        add.commute add.left_commute diff_add_eq)
  finally show ?thesis .
qed


lemma advect_right_cell:
  assumes sq: "square n g" and i: "i < n" and j: "j < n"
  shows "advect_right g alpha ! i ! j
           = (1 - alpha) * g ! i ! j + alpha * g ! i ! nat ((int j - 1) mod int n)"
proof -
  from sq have len: "length g = n" by (simp add: square_def)
  with i sq have leni: "length (g ! i) = n" by (simp add: square_def)
  show ?thesis
    using i j len leni
    by (simp add: advect_right_def Let_def roll_axis1_def length_roll_row nth_roll_row_mod)
qed

lemma grid_add_cell:
  assumes "square n a" and "square n b" and "i < n" and "j < n"
  shows "grid_add a b ! i ! j = a ! i ! j + b ! i ! j"
  using assms by (simp add: grid_add_def square_def)

lemma grid_sub_cell:
  assumes "square n a" and "square n b" and "i < n" and "j < n"
  shows "grid_sub a b ! i ! j = a ! i ! j - b ! i ! j"
  using assms by (simp add: grid_sub_def square_def)

lemma grid_scale_cell:
  assumes "square n a" and "i < n" and "j < n"
  shows "grid_scale a f ! i ! j = a ! i ! j * f"
  using assms by (simp add: grid_scale_def square_def)

lemma fill_zero_cell:
  assumes "square n a" and "i < n" and "j < n"
  shows "fill_zero a ! i ! j = 0"
  using assms by (simp add: fill_zero_def square_def)

lemma spec_diffused_cell_cong:
  assumes "0 < n" and "\<And>p q. p < n \<Longrightarrow> q < n \<Longrightarrow> f p q = g p q"
  shows "spec_diffused_cell f kern n i j = spec_diffused_cell g kern n i j"
proof -
  have "f (nat ((int i + int da - 1) mod int n)) (nat ((int j + int db - 1) mod int n))
      = g (nat ((int i + int da - 1) mod int n)) (nat ((int j + int db - 1) mod int n))" for da db
    using assms(1) by (intro assms(2)) (simp_all add: nat_less_iff)
  then show ?thesis by (simp add: spec_diffused_cell_def)
qed

lemma collect_catalyst_cell:
  assumes pos: "0 < GRID_SIZE cfg"
    and u: "square (nat (GRID_SIZE cfg)) upper" and l: "square (nat (GRID_SIZE cfg)) lower"
    and k: "length (KERNEL_3x3 cfg) = 3" "\<forall>row \<in> set (KERNEL_3x3 cfg). length row = 3"
    and i: "i < nat (GRID_SIZE cfg)" and j: "j < nat (GRID_SIZE cfg)"
  shows "advect_right (apply_convolution cfg (grid_add upper lower) (KERNEL_3x3 cfg))
           (ADVECT_ALPHA cfg) ! i ! j
         = spec_collected_cell cfg upper lower i j"
proof -
  let ?n = "nat (GRID_SIZE cfg)"
  let ?sum = "grid_add upper lower"
  let ?conv = "apply_convolution cfg ?sum (KERNEL_3x3 cfg)"
  let ?j' = "nat ((int j - 1) mod int ?n)"
  from pos have g: "GRID_SIZE cfg = int ?n" and n: "0 < ?n" by simp_all
  have sq_sum: "square ?n ?sum" using u l by (simp add: grid_add_def square_map2)
  have sq_conv: "square ?n ?conv" using sq_sum by (rule square_apply_convolution)
  have j': "?j' < ?n" using n by (simp add: nat_less_iff)
  have lifted: "spec_diffused_cell (\<lambda>p q. ?sum ! p ! q) (KERNEL_3x3 cfg) ?n i c
      = spec_diffused_cell (\<lambda>p q. upper ! p ! q + lower ! p ! q) (KERNEL_3x3 cfg) ?n i c" for c
    using n by (rule spec_diffused_cell_cong) (rule grid_add_cell [OF u l])
  have "advect_right ?conv (ADVECT_ALPHA cfg) ! i ! j
      = (1 - ADVECT_ALPHA cfg) * ?conv ! i ! j + ADVECT_ALPHA cfg * ?conv ! i ! ?j'"
    using sq_conv i j by (rule advect_right_cell)
  also have "?conv ! i ! j = spec_diffused_cell (\<lambda>p q. ?sum ! p ! q) (KERNEL_3x3 cfg) ?n i j"
    using sq_sum g k i j by (rule apply_convolution_cell)
  also have "?conv ! i ! ?j' = spec_diffused_cell (\<lambda>p q. ?sum ! p ! q) (KERNEL_3x3 cfg) ?n i ?j'"
    using sq_sum g k i j' by (rule apply_convolution_cell)
  finally show ?thesis
    by (simp add: spec_collected_cell_def Let_def lifted)
qed


lemma step_cells:
  assumes st: "step R cfg s = Some (Inr (s', st))" and v: "valid_state cfg s"
    and k: "length (KERNEL_3x3 cfg) = 3" "\<forall>row \<in> set (KERNEL_3x3 cfg). length row = 3"
    and i: "i < nat (GRID_SIZE cfg)" and j: "j < nat (GRID_SIZE cfg)"
  shows "((tick s + 1) mod 2 = 0 \<longrightarrow>
            catalyst_lower s' ! i ! j
              = catalyst_lower s ! i ! j + catalyst_upper s ! i ! j * EMIT_FRACTION cfg \<and>
            catalyst_upper s' ! i ! j
              = catalyst_upper s ! i ! j - catalyst_upper s ! i ! j * EMIT_FRACTION cfg) \<and>
         ((tick s + 1) mod 2 \<noteq> 0 \<longrightarrow>
            catalyst_lower s' ! i ! j = 0 \<and>
            catalyst_upper s' ! i ! j
              = spec_collected_cell cfg (catalyst_upper s) (catalyst_lower s) i j)"
proof -
  let ?n = "nat (GRID_SIZE cfg)"
  from v have pos: "0 < GRID_SIZE cfg"
    and u: "square ?n (catalyst_upper s)" and l: "square ?n (catalyst_lower s)"
    by (simp_all add: valid_state_def)
  have t: "square ?n (grid_scale (catalyst_upper s) (EMIT_FRACTION cfg))"
    using u by (rule square_scale)
  note m = step_mode [OF st]
  show ?thesis
  proof (intro conjI impI)
    assume e: "(tick s + 1) mod 2 = 0"
    with m have lo: "catalyst_lower s' =
        grid_add (catalyst_lower s) (grid_scale (catalyst_upper s) (EMIT_FRACTION cfg))"
      and up: "catalyst_upper s' =
        grid_sub (catalyst_upper s) (grid_scale (catalyst_upper s) (EMIT_FRACTION cfg))"
      by simp_all
    show "catalyst_lower s' ! i ! j
        = catalyst_lower s ! i ! j + catalyst_upper s ! i ! j * EMIT_FRACTION cfg"
      unfolding lo by (simp add: grid_add_cell [OF l t i j] grid_scale_cell [OF u i j])
    show "catalyst_upper s' ! i ! j
        = catalyst_upper s ! i ! j - catalyst_upper s ! i ! j * EMIT_FRACTION cfg"
      unfolding up by (simp add: grid_sub_cell [OF u t i j] grid_scale_cell [OF u i j])
  next
    assume c: "(tick s + 1) mod 2 \<noteq> 0"
    with m have lo: "catalyst_lower s' = fill_zero (catalyst_lower s)"
      and up: "catalyst_upper s' =
         advect_right
           (apply_convolution cfg (grid_add (catalyst_upper s) (catalyst_lower s)) (KERNEL_3x3 cfg))
           (ADVECT_ALPHA cfg)"
      by simp_all
    show "catalyst_lower s' ! i ! j = 0"
      unfolding lo using l i j by (rule fill_zero_cell)
    show "catalyst_upper s' ! i ! j
        = spec_collected_cell cfg (catalyst_upper s) (catalyst_lower s) i j"
      unfolding up using pos u l k i j by (rule collect_catalyst_cell)
  qed
qed



lemma step_mode_cells:
  assumes st: "step R cfg s = Some (Inr (s', st))"
  shows "tick s' = tick s + 1 \<and> stats_tick st = tick s + 1 \<and>
      stats_emit_mode st = ((tick s + 1) mod 2 = 0) \<and>
      ((tick s + 1) mod 2 = 0 \<longrightarrow>
         catalyst_lower s' =
           grid_add (catalyst_lower s) (grid_scale (catalyst_upper s) (EMIT_FRACTION cfg)) \<and>
         catalyst_upper s' =
           grid_sub (catalyst_upper s) (grid_scale (catalyst_upper s) (EMIT_FRACTION cfg))) \<and>
      ((tick s + 1) mod 2 \<noteq> 0 \<longrightarrow>
         catalyst_lower s' = fill_zero (catalyst_lower s) \<and>
         catalyst_upper s' =
           advect_right
             (apply_convolution cfg (grid_add (catalyst_upper s) (catalyst_lower s))
                (KERNEL_3x3 cfg))
             (ADVECT_ALPHA cfg)) \<and>
      (valid_state cfg s \<and> length (KERNEL_3x3 cfg) = 3 \<and>
       (\<forall>row \<in> set (KERNEL_3x3 cfg). length row = 3) \<longrightarrow>
         valid_state cfg s' \<and>
         (\<forall>i < nat (GRID_SIZE cfg). \<forall>j < nat (GRID_SIZE cfg).
            ((tick s + 1) mod 2 = 0 \<longrightarrow>
               catalyst_lower s' ! i ! j
                 = catalyst_lower s ! i ! j + catalyst_upper s ! i ! j * EMIT_FRACTION cfg \<and>
               catalyst_upper s' ! i ! j
                 = catalyst_upper s ! i ! j - catalyst_upper s ! i ! j * EMIT_FRACTION cfg) \<and>
            ((tick s + 1) mod 2 \<noteq> 0 \<longrightarrow>
               catalyst_lower s' ! i ! j = 0 \<and>
               catalyst_upper s' ! i ! j
                 = spec_collected_cell cfg (catalyst_upper s) (catalyst_lower s) i j)))"
proof -
  have cells: "valid_state cfg s \<and> length (KERNEL_3x3 cfg) = 3 \<and>
       (\<forall>row \<in> set (KERNEL_3x3 cfg). length row = 3) \<longrightarrow>
         valid_state cfg s' \<and>
         (\<forall>i < nat (GRID_SIZE cfg). \<forall>j < nat (GRID_SIZE cfg).
            ((tick s + 1) mod 2 = 0 \<longrightarrow>
               catalyst_lower s' ! i ! j
                 = catalyst_lower s ! i ! j + catalyst_upper s ! i ! j * EMIT_FRACTION cfg \<and>
               catalyst_upper s' ! i ! j
                 = catalyst_upper s ! i ! j - catalyst_upper s ! i ! j * EMIT_FRACTION cfg) \<and>
            ((tick s + 1) mod 2 \<noteq> 0 \<longrightarrow>
               catalyst_lower s' ! i ! j = 0 \<and>
               catalyst_upper s' ! i ! j
                 = spec_collected_cell cfg (catalyst_upper s) (catalyst_lower s) i j))"
  proof (intro impI, elim conjE, rule conjI)
    assume v: "valid_state cfg s" and k: "length (KERNEL_3x3 cfg) = 3"
      "\<forall>row \<in> set (KERNEL_3x3 cfg). length row = 3"
    show "valid_state cfg s'" using v st by (rule step_keeps_valid_state)
    show "(\<forall>i < nat (GRID_SIZE cfg). \<forall>j < nat (GRID_SIZE cfg).
            ((tick s + 1) mod 2 = 0 \<longrightarrow>
               catalyst_lower s' ! i ! j
                 = catalyst_lower s ! i ! j + catalyst_upper s ! i ! j * EMIT_FRACTION cfg \<and>
               catalyst_upper s' ! i ! j
                 = catalyst_upper s ! i ! j - catalyst_upper s ! i ! j * EMIT_FRACTION cfg) \<and>
            ((tick s + 1) mod 2 \<noteq> 0 \<longrightarrow>
               catalyst_lower s' ! i ! j = 0 \<and>
               catalyst_upper s' ! i ! j
                 = spec_collected_cell cfg (catalyst_upper s) (catalyst_lower s) i j))"
      by (intro allI impI) (rule step_cells [OF st v k])
  qed
  note m = step_mode [OF st]
  from m have 1: "tick s' = tick s + 1" by (rule conjunct1)
  from m have 2: "stats_tick st = tick s + 1" by (elim conjE)
  from m have 3: "stats_emit_mode st = ((tick s + 1) mod 2 = 0)" by (elim conjE)
  from m have 4: "(tick s + 1) mod 2 = 0 \<longrightarrow>
         catalyst_lower s' =
           grid_add (catalyst_lower s) (grid_scale (catalyst_upper s) (EMIT_FRACTION cfg)) \<and>
         catalyst_upper s' =
           grid_sub (catalyst_upper s) (grid_scale (catalyst_upper s) (EMIT_FRACTION cfg))"
    by (elim conjE)
  from m have 5: "(tick s + 1) mod 2 \<noteq> 0 \<longrightarrow>
         catalyst_lower s' = fill_zero (catalyst_lower s) \<and>
         catalyst_upper s' =
           advect_right
             (apply_convolution cfg (grid_add (catalyst_upper s) (catalyst_lower s))
                (KERNEL_3x3 cfg))
             (ADVECT_ALPHA cfg)"
    by (elim conjE)
  from 1 2 3 4 5 cells show ?thesis by (intro conjI)
qed

lemma square_2_cells:
  assumes "square 2 a"
  shows "a = [[a ! 0 ! 0, a ! 0 ! 1], [a ! 1 ! 0, a ! 1 ! 1]]"
proof -
  have two: "xs = [xs ! 0, xs ! 1]" if "length xs = 2" for xs :: "'a list"
    using that by (cases xs; cases "tl xs"; auto)
  from assms have rows: "length a = 2" "length (a ! 0) = 2" "length (a ! 1) = 2"
    by (auto simp: square_def)
  show ?thesis
    using two [OF rows(1)] two [OF rows(2)] two [OF rows(3)] by metis
qed

section \<open>The configuration module\<close>

lemma hasattr_config_namespace:
  "hasattr config_namespace name \<longleftrightarrow>
     name \<in> set (map fst import_attributes) \<union> set (map fst config_module)
            \<union> set module_type_attributes"
proof -
  have "config_namespace name \<noteq> None \<longleftrightarrow> name \<in> fst ` set (import_attributes @ config_module)"
    unfolding config_namespace_def by (simp only: map_of_eq_None_iff not_not)
  then show ?thesis by (auto simp: hasattr_def)
qed

lemma set_parameter_hasattr:
  assumes "set_parameter ns name v = Inr (b, ns')"
  shows "hasattr ns' other \<longleftrightarrow> hasattr ns other"
  using assms
  by (auto simp: set_parameter_def setattr_def hasattr_def split: if_splits)

lemma module_state_hasattr:
  assumes "module_state ns"
  shows "hasattr ns name \<longleftrightarrow> hasattr config_namespace name"
  using assms
proof (induction rule: module_state.induct)
  case imported
  show ?case by simp
next
  case (parameter_set ns name' v b ns')
  from set_parameter_hasattr [OF parameter_set(2), of name] parameter_set(3)
  show ?case by simp
qed

lemma read_config_imported: "read_config config_namespace = Some default_config"
  by (simp add: read_config_def config_namespace_def import_attributes_def config_module_def
      default_config_def)

lemma read_config_grid_size:
  assumes "read_config ns = Some cfg"
  shows "read_config (ns(''GRID_SIZE'' \<mapsto> PyInt g)) = Some (cfg\<lparr>GRID_SIZE := g\<rparr>)"
  using assms
  by (auto simp: read_config_def split: option.splits)

lemma read_config_c_thresh:
  assumes "read_config ns = Some cfg"
  shows "read_config (ns(''C_THRESH'' \<mapsto> PyFloat x)) = Some (cfg\<lparr>C_THRESH := x\<rparr>)"
  using assms
  by (auto simp: read_config_def split: option.splits)

lemma config_module_names:
  "name \<in> set (map fst config_module) \<Longrightarrow> name \<noteq> ''__class__'' \<and> name \<noteq> ''__dict__''"
  by (auto simp: config_module_def)

section \<open>The claims\<close>

subsection \<open>Conservation of catalyst mass (C1)\<close>

text \<open>
  C1 (conservation). From a valid state, with a 3 by 3 kernel whose weights sum to 1,
  any number \<open>k\<close> of calls of \<^verbatim>\<open>step\<close> leaves the total catalyst mass
  \<open>sum(upper) + sum(lower)\<close> equal to the initial total, the total reported by every
  one of the \<open>k\<close> steps is that initial total, and the state stays valid. The \<open>k\<close>
  steps do return when \<open>TAU_TEMP\<close> is at least 2, so that a core cannot bloom in the
  loop that spawned it. Arithmetic is exact (over the reals); the emission transfer,
  the lift, the wrap-around convolution and the advection blend each preserve the total
  (\<open>emit_catalyst_mass\<close>, \<open>collect_catalyst_mass\<close>).
\<close>

theorem C1_catalyst_conservation:
  assumes "normalized_3x3 (KERNEL_3x3 cfg)" and "valid_state cfg s"
  shows "(2 \<le> TAU_TEMP cfg \<longrightarrow> (\<exists>s' sts. run R cfg k s = Some (Inr (s', sts)))) \<and>
         (\<forall>s' sts. run R cfg k s = Some (Inr (s', sts)) \<longrightarrow>
            total_mass s' = total_mass s \<and>
            length sts = k \<and>
            (\<forall>st \<in> set sts. total_catalyst st = total_mass s) \<and>
            valid_state cfg s')"
proof (intro conjI impI allI)
  assume "2 \<le> TAU_TEMP cfg"
  then show "\<exists>s' sts. run R cfg k s = Some (Inr (s', sts))"
    using assms(2) by (rule run_returns)
next
  fix s' sts
  assume r: "run R cfg k s = Some (Inr (s', sts))"
  from assms(2) have sh: "catalyst_shape cfg s"
    by (simp add: valid_state_def catalyst_shape_def)
  from run_mass [OF assms(1) sh r]
  show "total_mass s' = total_mass s" and "length sts = k"
    and "\<forall>st \<in> set sts. total_catalyst st = total_mass s"
    by simp_all
  show "valid_state cfg s'"
    using assms(2) r by (rule run_keeps_valid_state)
qed

theorem C1_catalyst_conservation_witness:
  "\<exists>s' sts. run counter_rng small_config 2 small_world = Some (Inr (s', sts)) \<and>
     total_mass s' = 3 / 20 \<and> map total_catalyst sts = [3 / 20, 3 / 20]"
proof -
  have k: "normalized_3x3 (KERNEL_3x3 small_config)"
    using default_kernel_normalized by (simp add: small_config_def)
  have tau: "2 \<le> TAU_TEMP small_config"
    by (simp add: small_config_def default_config_def)
  note c1 = C1_catalyst_conservation [OF k small_world_valid, of counter_rng 2]
  from c1 tau obtain s' sts where
    r: "run counter_rng small_config 2 small_world = Some (Inr (s', sts))"
    by blast
  have m: "total_mass small_world = 3 / 20"
    by (simp add: total_mass_def grid_sum_def small_world_def)
  from c1 r m
  have "total_mass s' = 3 / 20" and "length sts = 2"
    and "\<forall>st \<in> set sts. total_catalyst st = 3 / 20"
    by simp_all
  then have "map total_catalyst sts = [3 / 20, 3 / 20]"
    by (cases sts; cases "tl sts"; auto)
  with r \<open>total_mass s' = 3 / 20\<close> show ?thesis
    by (intro exI [of _ s'] exI [of _ sts]) simp
qed

subsection \<open>The cores a step updates (C2)\<close>




subsection \<open>The refractory update (C3)\<close>

text \<open>
  C3 (refractory update). The claim: an update made while
  \<open>refractory_countdown > 0\<close> decrements the countdown, sets \<open>bloomed\<close> to false,
  leaves the exposure count unchanged and returns false. The code returns from the
  refractory branch before it clears \<open>bloomed\<close>: on a core that has just bloomed
  (\<open>bloomed\<close> true, countdown 12) the update returns false, decrements the countdown
  and leaves the exposure count, but \<open>bloomed\<close> is still true afterwards. In general
  the refractory update changes the countdown and nothing else (\<open>update_refractory\<close>).
\<close>

theorem C3_refractory_update_leaves_bloomed_set:
  "update default_config
     \<lparr> core_x = 3, core_y = 4, temp_exposure_count = 0, bloomed = True,
       refractory_countdown = 12, total_blooms = 1, last_bloom_tick = 16 \<rparr>
     17 0.5 0.3 False
   = (False,
      \<lparr> core_x = 3, core_y = 4, temp_exposure_count = 0, bloomed = True,
        refractory_countdown = 11, total_blooms = 1, last_bloom_tick = 16 \<rparr>)"
  by (simp add: update_def)

subsection \<open>Reset (C4)\<close>

text \<open>
  C4 (reset), as the code has it. \<^verbatim>\<open>reset\<close> does not create or seed a generator: it
  draws from the stream the object already holds, from its current position. A
  \<^verbatim>\<open>reset\<close> that returns leaves the tick, the bloom counter and the event list at
  zero, the clock reading stored, the seed untouched and the lower layer all zero; the
  temperature is the next \<open>N \<times> N\<close> draws of the current stream and the upper layer
  the following \<open>N \<times> N\<close> draws times 0.2; there are \<open>INITIAL_CORES\<close> cores, each as
  its constructor leaves it. The result depends on the object only through its stream
  and seed, and the constructor is a \<^verbatim>\<open>reset\<close> of the freshly seeded stream: so the
  state after \<^verbatim>\<open>reset\<close> is that of a fresh construction with the same seed when the
  stream is in its seeded state.
\<close>

theorem C4_reset_draws_from_current_stream:
  assumes "reset R cfg now s = Some (Inr s')"
  shows "tick s' = 0 \<and> sim_total_blooms s' = 0 \<and> bloom_locations s' = [] \<and>
    start_time s' = now \<and> seed s' = seed s \<and>
    catalyst_lower s' = zeros (nat (GRID_SIZE cfg)) (nat (GRID_SIZE cfg)) \<and>
    temperature s' = fst (random_grid R (nat (GRID_SIZE cfg)) (nat (GRID_SIZE cfg)) (rng s)) \<and>
    catalyst_upper s' =
      grid_scale (fst (random_grid R (nat (GRID_SIZE cfg)) (nat (GRID_SIZE cfg))
        (snd (random_grid R (nat (GRID_SIZE cfg)) (nat (GRID_SIZE cfg)) (rng s))))) 0.2 \<and>
    length (cores s') = nat (INITIAL_CORES cfg) \<and>
    (\<forall>c \<in> set (cores s'). \<exists>x y. c = Core x y) \<and>
    (\<forall>s2. rng s2 = rng s \<and> seed s2 = seed s \<longrightarrow> reset R cfg now s2 = Some (Inr s')) \<and>
    (rng s = seeded R (seed s) \<longrightarrow> construct R cfg (Some (seed s)) now = Some (Inr s'))"
proof -
  let ?n = "nat (GRID_SIZE cfg)"
  from assms obtain cs r3 where
    ic: "initialize_cores R cfg (nat (INITIAL_CORES cfg)) {} []
           (snd (random_grid R ?n ?n (snd (random_grid R ?n ?n (rng s))))) = Some (Inr (cs, r3))"
    and s': "s' = s\<lparr> tick := 0,
               temperature := fst (random_grid R ?n ?n (rng s)),
               catalyst_upper :=
                 grid_scale (fst (random_grid R ?n ?n (snd (random_grid R ?n ?n (rng s))))) 0.2,
               catalyst_lower := zeros ?n ?n,
               cores := cs, rng := r3, sim_total_blooms := 0, bloom_locations := [],
               start_time := now \<rparr>"
    by (rule reset_Inr)
  from initialize_cores_fresh [OF ic]
  have cs: "length cs = nat (INITIAL_CORES cfg)" "\<forall>c \<in> set cs. \<exists>x y. c = Core x y"
    by auto
  have dep: "\<forall>s2. rng s2 = rng s \<and> seed s2 = seed s \<longrightarrow> reset R cfg now s2 = Some (Inr s')"
    using reset_depends_on_stream [of _ s R cfg now] assms by simp
  have "rng s = seeded R (seed s) \<longrightarrow> construct R cfg (Some (seed s)) now = Some (Inr s')"
    using dep by (simp add: construct_def)
  with dep cs show ?thesis by (simp add: s')
qed

theorem C4_reset_draws_from_current_stream_witness:
  "reset counter_rng small_config 0 small_world = Some (Inr small_world_reset) \<and>
   tick small_world_reset = 0 \<and>
   temperature small_world_reset =
     fst (random_grid counter_rng 2 2 (rng small_world)) \<and>
   reset counter_rng small_config 0 (small_world\<lparr>tick := 7\<rparr>) = Some (Inr small_world_reset) \<and>
   construct counter_rng small_config (Some 4) 0 = Some (Inr small_world)"
proof -
  note c4 = C4_reset_draws_from_current_stream [OF reset_small_world]
  have n: "nat (GRID_SIZE small_config) = 2" by (simp add: small_config_def)
  from c4 have "tick small_world_reset = 0"
    and "temperature small_world_reset = fst (random_grid counter_rng 2 2 (rng small_world))"
    and "\<forall>s2. rng s2 = rng small_world \<and> seed s2 = seed small_world
           \<longrightarrow> reset counter_rng small_config 0 s2 = Some (Inr small_world_reset)"
    unfolding n by blast+
  moreover
  have "seeded counter_rng 4 = 4" by (simp add: counter_rng_def)
  with C4_reset_draws_from_current_stream [OF reset_seeded_object]
  have "construct counter_rng small_config (Some 4) 0 = Some (Inr small_world)"
    by simp
  ultimately show ?thesis using reset_small_world by simp
qed

text \<open>
  C4 as claimed says that the state after \<^verbatim>\<open>reset\<close> is the state of a fresh
  construction with the same seed, and that two consecutive resets give the same
  state. \<open>small_world\<close> is the fresh construction from seed 4; its \<^verbatim>\<open>reset\<close> has other
  temperatures and another upper layer, and a second \<^verbatim>\<open>reset\<close> differs again.
\<close>

theorem C4_reset_is_not_a_fresh_construction:
  "construct counter_rng small_config (Some 4) 0 = Some (Inr small_world) \<and>
   reset counter_rng small_config 0 small_world = Some (Inr small_world_reset) \<and>
   temperature small_world_reset \<noteq> temperature small_world \<and>
   catalyst_upper small_world_reset \<noteq> catalyst_upper small_world \<and>
   reset counter_rng small_config 0 small_world_reset \<noteq> Some (Inr small_world_reset)"
proof -
  have "temperature small_world_reset \<noteq> temperature small_world"
    and "catalyst_upper small_world_reset \<noteq> catalyst_upper small_world"
    by (simp_all add: small_world_def small_world_reset_def)
  with construct_small_world reset_small_world reset_small_world_reset show ?thesis by simp
qed

subsection \<open>Determinism (C5)\<close>

text \<open>
  C5 (determinism). The model of a run is a function of the generator, the
  configuration, the seed argument, the number of steps and the clock reading taken by
  the constructor; the clock is the only input that two simulations constructed with the
  same seed can differ in. The sequence of records of \<open>k\<close> steps does not depend on
  it: two simulations constructed with the same seed, at any two clock readings, and
  stepped \<open>k\<close> times produce the same sequence of records (or both raise the same
  error, or both do not return).
\<close>

theorem C5_same_seed_same_stats:
  "simulate R cfg seed_arg now1 k = simulate R cfg seed_arg now2 k"
  using simulate_clock [of R cfg seed_arg now1 k] simulate_clock [of R cfg seed_arg now2 k]
  by simp

theorem C5_same_seed_same_stats_witness:
  "simulate counter_rng small_config (Some 4) 1000 2 =
     Some (Inr [\<lparr> stats_tick = 1, stats_emit_mode = False, blooms_this_tick = 0,
                  stats_total_blooms = 0, total_catalyst = 3 / 20 \<rparr>,
                \<lparr> stats_tick = 2, stats_emit_mode = True, blooms_this_tick = 0,
                  stats_total_blooms = 0, total_catalyst = 3 / 20 \<rparr>])"
  using C5_same_seed_same_stats [of counter_rng small_config "Some 4" 1000 2 0] simulate_small
  by simp

subsection \<open>The bloom trigger (C6)\<close>

text \<open>
  C6 (bloom trigger). A core that is not refractory and has
  \<open>temp_exposure_count = TAU_TEMP - 1\<close>, updated once with a temperature in
  \<open>[T_MIN, T_MAX]\<close> (bounds included), in emission mode and with catalyst at least
  \<open>C_THRESH\<close>, returns true; afterwards \<open>bloomed\<close> is true, \<open>total_blooms\<close> is one
  more, \<open>last_bloom_tick\<close> is the tick argument, \<open>refractory_countdown\<close> is
  \<open>TAU_REFRACT\<close> and the exposure count is 0.
\<close>

theorem C6_bloom_trigger:
  assumes "refractory_countdown c = 0"
    and "temp_exposure_count c = TAU_TEMP cfg - 1"
    and "T_MIN cfg \<le> t" and "t \<le> T_MAX cfg"
    and "C_THRESH cfg \<le> cat"
  shows "update cfg c n t cat True =
           (True, c\<lparr>bloomed := True, total_blooms := total_blooms c + 1,
                     last_bloom_tick := n, refractory_countdown := TAU_REFRACT cfg,
                     temp_exposure_count := 0\<rparr>)"
  using assms by (simp add: update_def Let_def)

theorem C6_bloom_trigger_witness:
  "update default_config ((Core 3 4)\<lparr>temp_exposure_count := 7\<rparr>) 16 0.40 0.2 True =
     (True, \<lparr> core_x = 3, core_y = 4, temp_exposure_count = 0, bloomed = True,
              refractory_countdown = 12, total_blooms = 1, last_bloom_tick = 16 \<rparr>)"
  using C6_bloom_trigger [of "(Core 3 4)\<lparr>temp_exposure_count := 7\<rparr>" default_config "0.40" "0.2" 16]
  by (simp add: Core_def default_config_def)

subsection \<open>The temperature scroll (C7)\<close>

text \<open>
  C7 (temperature scroll). On a \<open>GRID_SIZE \<times> GRID_SIZE\<close> temperature array with
  \<open>GRID_SIZE\<close> at least 1, one \<^verbatim>\<open>shift_temperature\<close> returns and keeps the shape;
  every column \<open>c\<close> from 1 to \<open>N - 1\<close> of the new array is the old column \<open>c - 1\<close>;
  column 0 holds, row by row, the \<open>N\<close> values that \<^verbatim>\<open>rng.random(N)\<close> draws from the
  stream, which advances by exactly these draws; the drawn values lie in \<open>[0, 1)\<close>
  for a generator that draws in range, and then an array with all cells in \<open>[0, 1)\<close>
  stays so. On the empty array of \<open>GRID_SIZE = 0\<close> there is no column 0 and the call
  raises \<^verbatim>\<open>IndexError\<close>. With a generator that draws in range every cell of the
  temperature array of every reachable state lies in \<open>[0, 1)\<close>.
\<close>

theorem C7_scroll:
  assumes "GRID_SIZE cfg = int n" and "square n (temperature s)"
  shows "(n = 0 \<longrightarrow> shift_temperature R cfg s = Inl IndexError) \<and>
    (0 < n \<longrightarrow> (\<exists>s2. shift_temperature R cfg s = Inr s2 \<and>
        square n (temperature s2) \<and>
        (\<forall>r < n. \<forall>c. 0 < c \<and> c < n \<longrightarrow>
            temperature s2 ! r ! c = temperature s ! r ! (c - 1)) \<and>
        (\<forall>r < n. temperature s2 ! r ! 0 = fst (random_vec R n (rng s)) ! r) \<and>
        rng s2 = snd (random_vec R n (rng s)) \<and>
        (draws_in_range R \<and> unit_grid (temperature s) \<longrightarrow> unit_grid (temperature s2)))) \<and>
    (draws_in_range R \<longrightarrow> (\<forall>v \<in> set (fst (random_vec R n (rng s))). 0 \<le> v \<and> v < 1)) \<and>
    (draws_in_range R \<and> reachable R s0 \<longrightarrow> unit_grid (temperature s0))"
proof (intro conjI impI)
  assume "n = 0"
  with assms show "shift_temperature R cfg s = Inl IndexError"
    by (intro shift_temperature_empty) (simp_all add: square_def)
next
  assume pos: "0 < n"
  from shift_temperature_returns [OF assms pos, of R]
  obtain s2 where shift: "shift_temperature R cfg s = Inr s2" by blast
  note cells = shift_temperature_cells [OF assms pos shift]
  from shift cells(1,2,3,4,6)
  show "\<exists>s2. shift_temperature R cfg s = Inr s2 \<and>
        square n (temperature s2) \<and>
        (\<forall>r < n. \<forall>c. 0 < c \<and> c < n \<longrightarrow>
            temperature s2 ! r ! c = temperature s ! r ! (c - 1)) \<and>
        (\<forall>r < n. temperature s2 ! r ! 0 = fst (random_vec R n (rng s)) ! r) \<and>
        rng s2 = snd (random_vec R n (rng s)) \<and>
        (draws_in_range R \<and> unit_grid (temperature s) \<longrightarrow> unit_grid (temperature s2))"
    by (intro exI [of _ s2] conjI) assumption+
next
  assume "draws_in_range R"
  then show "\<forall>v \<in> set (fst (random_vec R n (rng s))). 0 \<le> v \<and> v < 1"
    by (rule random_vec_bounds)
next
  assume "draws_in_range R \<and> reachable R s0"
  then show "unit_grid (temperature s0)"
    using reachable_temperature_unit [of R s0] by blast
qed

theorem C7_scroll_witness:
  "(\<exists>s2. shift_temperature counter_rng small_config small_world = Inr s2 \<and>
      temperature s2 = [[3/4, 1/2], [7/8, 3/4]] \<and>
      unit_grid (temperature s2)) \<and>
   fst (random_vec counter_rng 2 (rng small_world)) = [3/4, 7/8]"
proof -
  have g: "GRID_SIZE small_config = int 2" by (simp add: small_config_def)
  have sq: "square 2 (temperature small_world)"
    by (simp add: square_def small_world_def)
  have u: "unit_grid (temperature small_world)"
    by (simp add: unit_grid_def small_world_def)
  have col: "fst (random_vec counter_rng 2 (rng small_world)) = [3/4, 7/8]"
    by (simp add: numeral_2_eq_2 counter_rng_def small_world_def)
  have pos: "0 < (2::nat)" by simp
  from C7_scroll [OF g sq, of counter_rng] pos counter_rng_in_range u
  obtain s2 where ret: "shift_temperature counter_rng small_config small_world = Inr s2"
    and sqn: "square 2 (temperature s2)"
    and shift: "\<forall>r < 2. \<forall>c. 0 < c \<and> c < 2 \<longrightarrow>
                  temperature s2 ! r ! c = temperature small_world ! r ! (c - 1)"
    and c0: "\<forall>r < 2. temperature s2 ! r ! 0 = fst (random_vec counter_rng 2 (rng small_world)) ! r"
    and un: "unit_grid (temperature s2)"
    by blast
  let ?new = "temperature s2"
  have rows: "length ?new = 2" "length (?new ! 0) = 2" "length (?new ! 1) = 2"
    using sqn by (auto simp: square_def)
  have cells: "?new ! 0 ! 0 = 3/4" "?new ! 1 ! 0 = 7/8" "?new ! 0 ! 1 = 1/2" "?new ! 1 ! 1 = 3/4"
    using shift c0 col by (simp_all add: small_world_def)
  have two: "xs = [xs ! 0, xs ! 1]" if "length xs = 2" for xs :: "'a list"
    using that by (cases xs; cases "tl xs"; auto)
  have "?new = [[?new ! 0 ! 0, ?new ! 0 ! 1], [?new ! 1 ! 0, ?new ! 1 ! 1]]"
    using two [OF rows(1)] two [OF rows(2)] two [OF rows(3)] by metis
  then have "?new = [[3/4, 1/2], [7/8, 3/4]]"
    unfolding cells .
  with ret col un show ?thesis by blast
qed

subsection \<open>Tick, mode and catalyst transform of a step (C8)\<close>

text \<open>
  C8 (tick and mode). From a valid state with \<open>TAU_TEMP\<close> at least 2 a \<^verbatim>\<open>step\<close>
  returns. Every \<^verbatim>\<open>step\<close> that returns has incremented the tick counter by exactly
  1 and reports the incremented tick; its mode is emission exactly when the
  incremented tick is even. On an emission tick the catalyst layers after the step are
  the result of the emission transfer alone (\<open>transfer = upper * EMIT_FRACTION\<close>,
  \<open>lower + transfer\<close>, \<open>upper - transfer\<close>); on a collection tick they are the result
  of the collection transform alone (lift, zeroed lower layer, convolution with the
  kernel, advection). Cell by cell, from a valid state and with a 3 by 3 kernel: on an
  emission tick the lower cell is \<open>lower + upper * EMIT_FRACTION\<close> and the upper cell
  is \<open>upper - upper * EMIT_FRACTION\<close>; on a collection tick the lower cell is 0 and
  the upper cell is \<open>(1 - alpha) * d(i, j) + alpha * d(i, (j - 1) mod N)\<close>, where
  \<open>d(i, j)\<close> is the wrap-around 3 by 3 kernel sum of \<open>upper + lower\<close> around
  \<open>(i, j)\<close>; the state stays valid. The first step of a fresh simulation (tick 1) is a
  collection.
\<close>

theorem C8_step_mode:
  "(valid_state cfg s \<and> 2 \<le> TAU_TEMP cfg \<longrightarrow> (\<exists>s' st. step R cfg s = Some (Inr (s', st)))) \<and>
   (\<forall>s' st. step R cfg s = Some (Inr (s', st)) \<longrightarrow>
      tick s' = tick s + 1 \<and> stats_tick st = tick s + 1 \<and>
      stats_emit_mode st = ((tick s + 1) mod 2 = 0) \<and>
      ((tick s + 1) mod 2 = 0 \<longrightarrow>
         catalyst_lower s' =
           grid_add (catalyst_lower s) (grid_scale (catalyst_upper s) (EMIT_FRACTION cfg)) \<and>
         catalyst_upper s' =
           grid_sub (catalyst_upper s) (grid_scale (catalyst_upper s) (EMIT_FRACTION cfg))) \<and>
      ((tick s + 1) mod 2 \<noteq> 0 \<longrightarrow>
         catalyst_lower s' = fill_zero (catalyst_lower s) \<and>
         catalyst_upper s' =
           advect_right
             (apply_convolution cfg (grid_add (catalyst_upper s) (catalyst_lower s))
                (KERNEL_3x3 cfg))
             (ADVECT_ALPHA cfg)) \<and>
      (valid_state cfg s \<and> length (KERNEL_3x3 cfg) = 3 \<and>
       (\<forall>row \<in> set (KERNEL_3x3 cfg). length row = 3) \<longrightarrow>
         valid_state cfg s' \<and>
         (\<forall>i < nat (GRID_SIZE cfg). \<forall>j < nat (GRID_SIZE cfg).
            ((tick s + 1) mod 2 = 0 \<longrightarrow>
               catalyst_lower s' ! i ! j
                 = catalyst_lower s ! i ! j + catalyst_upper s ! i ! j * EMIT_FRACTION cfg \<and>
               catalyst_upper s' ! i ! j
                 = catalyst_upper s ! i ! j - catalyst_upper s ! i ! j * EMIT_FRACTION cfg) \<and>
            ((tick s + 1) mod 2 \<noteq> 0 \<longrightarrow>
               catalyst_lower s' ! i ! j = 0 \<and>
               catalyst_upper s' ! i ! j
                 = spec_collected_cell cfg (catalyst_upper s) (catalyst_lower s) i j))))"
proof (rule conjI)
  show "valid_state cfg s \<and> 2 \<le> TAU_TEMP cfg \<longrightarrow> (\<exists>s' st. step R cfg s = Some (Inr (s', st)))"
    using step_returns by blast
  show "\<forall>s' st. step R cfg s = Some (Inr (s', st)) \<longrightarrow>
      tick s' = tick s + 1 \<and> stats_tick st = tick s + 1 \<and>
      stats_emit_mode st = ((tick s + 1) mod 2 = 0) \<and>
      ((tick s + 1) mod 2 = 0 \<longrightarrow>
         catalyst_lower s' =
           grid_add (catalyst_lower s) (grid_scale (catalyst_upper s) (EMIT_FRACTION cfg)) \<and>
         catalyst_upper s' =
           grid_sub (catalyst_upper s) (grid_scale (catalyst_upper s) (EMIT_FRACTION cfg))) \<and>
      ((tick s + 1) mod 2 \<noteq> 0 \<longrightarrow>
         catalyst_lower s' = fill_zero (catalyst_lower s) \<and>
         catalyst_upper s' =
           advect_right
             (apply_convolution cfg (grid_add (catalyst_upper s) (catalyst_lower s))
                (KERNEL_3x3 cfg))
             (ADVECT_ALPHA cfg)) \<and>
      (valid_state cfg s \<and> length (KERNEL_3x3 cfg) = 3 \<and>
       (\<forall>row \<in> set (KERNEL_3x3 cfg). length row = 3) \<longrightarrow>
         valid_state cfg s' \<and>
         (\<forall>i < nat (GRID_SIZE cfg). \<forall>j < nat (GRID_SIZE cfg).
            ((tick s + 1) mod 2 = 0 \<longrightarrow>
               catalyst_lower s' ! i ! j
                 = catalyst_lower s ! i ! j + catalyst_upper s ! i ! j * EMIT_FRACTION cfg \<and>
               catalyst_upper s' ! i ! j
                 = catalyst_upper s ! i ! j - catalyst_upper s ! i ! j * EMIT_FRACTION cfg) \<and>
            ((tick s + 1) mod 2 \<noteq> 0 \<longrightarrow>
               catalyst_lower s' ! i ! j = 0 \<and>
               catalyst_upper s' ! i ! j
                 = spec_collected_cell cfg (catalyst_upper s) (catalyst_lower s) i j)))"
    by (intro allI impI) (erule step_mode_cells)
qed

theorem C8_step_mode_witness:
  "(\<exists>s' st. step counter_rng small_config small_world = Some (Inr (s', st)) \<and>
      tick s' = 1 \<and> stats_tick st = 1 \<and> stats_emit_mode st = False \<and>
      catalyst_lower s' = [[0, 0], [0, 0]] \<and>
      catalyst_upper s' = [[121/4000, 139/4000], [161/4000, 179/4000]]) \<and>
   (\<exists>s' st. step counter_rng small_config (small_world\<lparr>tick := 1\<rparr>) = Some (Inr (s', st)) \<and>
      tick s' = 2 \<and> stats_tick st = 2 \<and> stats_emit_mode st = True \<and>
      catalyst_lower s' = [[0, 3/200], [3/100, 9/200]] \<and>
      catalyst_upper s' = [[0, 1/100], [1/50, 3/100]])"
proof
  have tau: "2 \<le> TAU_TEMP small_config"
    by (simp add: small_config_def default_config_def)
  have k: "length (KERNEL_3x3 small_config) = 3"
    "\<forall>row \<in> set (KERNEL_3x3 small_config). length row = 3"
    by (simp_all add: small_config_def default_config_def)
  have n: "nat (GRID_SIZE small_config) = 2" by (simp add: small_config_def)
  have odd: "(tick small_world + 1) mod 2 \<noteq> 0" by (simp add: small_world_def)
  note c8 = C8_step_mode [of small_config small_world counter_rng]
  from c8 small_world_valid tau obtain s' st where
    r: "step counter_rng small_config small_world = Some (Inr (s', st))"
    by blast
  note post = c8 [THEN conjunct2, rule_format, OF r]
  from post have t: "tick s' = 1" "stats_tick st = 1" "stats_emit_mode st = False"
    and lo: "catalyst_lower s' = [[0, 0], [0, 0]]"
    by (simp_all add: small_world_def fill_zero_def)
  note cellwise = post [THEN conjunct2, THEN conjunct2, THEN conjunct2, THEN conjunct2,
      THEN conjunct2, rule_format, OF conjI [OF small_world_valid conjI [OF k]]]
  from cellwise odd
  have v': "valid_state small_config s'"
    and cells: "\<forall>i < 2. \<forall>j < 2. catalyst_upper s' ! i ! j
        = spec_collected_cell small_config (catalyst_upper small_world) (catalyst_lower small_world) i j"
    by (simp_all add: n)
  have vals:
    "spec_collected_cell small_config (catalyst_upper small_world) (catalyst_lower small_world) 0 0
       = 121/4000"
    "spec_collected_cell small_config (catalyst_upper small_world) (catalyst_lower small_world) 0 1
       = 139/4000"
    "spec_collected_cell small_config (catalyst_upper small_world) (catalyst_lower small_world) 1 0
       = 161/4000"
    "spec_collected_cell small_config (catalyst_upper small_world) (catalyst_lower small_world) 1 1
       = 179/4000"
    by code_simp+
  from v' have "square 2 (catalyst_upper s')" by (simp add: valid_state_def n)
  from square_2_cells [OF this] cells vals
  have up: "catalyst_upper s' = [[121/4000, 139/4000], [161/4000, 179/4000]]"
    by simp
  from r t lo up
  show "\<exists>s' st. step counter_rng small_config small_world = Some (Inr (s', st)) \<and>
      tick s' = 1 \<and> stats_tick st = 1 \<and> stats_emit_mode st = False \<and>
      catalyst_lower s' = [[0, 0], [0, 0]] \<and>
      catalyst_upper s' = [[121/4000, 139/4000], [161/4000, 179/4000]]"
    by (intro exI [of _ s'] exI [of _ st]) simp
next
  have tau: "2 \<le> TAU_TEMP small_config"
    by (simp add: small_config_def default_config_def)
  have v: "valid_state small_config (small_world\<lparr>tick := 1\<rparr>)"
    using small_world_valid by (simp add: valid_state_def)
  note c8 = C8_step_mode [of small_config "small_world\<lparr>tick := 1\<rparr>" counter_rng]
  from c8 v tau obtain s' st where
    r: "step counter_rng small_config (small_world\<lparr>tick := 1\<rparr>) = Some (Inr (s', st))"
    by blast
  note post = c8 [THEN conjunct2, rule_format, OF r]
  from post
  have "tick s' = 2 \<and> stats_tick st = 2 \<and> stats_emit_mode st = True \<and>
      catalyst_lower s' = [[0, 3/200], [3/100, 9/200]] \<and>
      catalyst_upper s' = [[0, 1/100], [1/50, 3/100]]"
    by (simp add: small_world_def small_config_def default_config_def
        grid_add_def grid_sub_def grid_scale_def)
  with r show "\<exists>s' st. step counter_rng small_config (small_world\<lparr>tick := 1\<rparr>) = Some (Inr (s', st)) \<and>
      tick s' = 2 \<and> stats_tick st = 2 \<and> stats_emit_mode st = True \<and>
      catalyst_lower s' = [[0, 3/200], [3/100, 9/200]] \<and>
      catalyst_upper s' = [[0, 1/100], [1/50, 3/100]]"
    by (intro exI [of _ s'] exI [of _ st]) simp
qed

subsection \<open>Setting parameters (C9)\<close>

text \<open>
  C9 (\<^verbatim>\<open>set_parameter\<close>), as the code has it. Whatever calls of \<^verbatim>\<open>set_parameter\<close>
  came before, the recognised names are the attributes that the module \<^verbatim>\<open>config\<close> had
  when it was imported: the names the import system binds, the names that
  \<^verbatim>\<open>config.py\<close> binds (\<open>GRID_SIZE\<close> among them) and the attributes of the module type;
  no call adds or removes one. For a name that is not recognised the call returns
  false and leaves the module as it was. For a recognised name other than \<^verbatim>\<open>__class__\<close>
  and \<^verbatim>\<open>__dict__\<close>, and so for every name that \<^verbatim>\<open>config.py\<close> binds, the call returns
  true, binds the name to the value and leaves every other name as it was; for
  \<^verbatim>\<open>__class__\<close> it raises \<^verbatim>\<open>TypeError\<close> and for \<^verbatim>\<open>__dict__\<close> it raises
  \<^verbatim>\<open>AttributeError\<close>. The test is \<^verbatim>\<open>hasattr\<close> alone: \<^verbatim>\<open>set_parameter("GRID_SIZE", g)\<close>
  returns true, and the grid size that the engine reads afterwards is \<open>g\<close>.
\<close>

theorem C9_set_parameter:
  assumes "module_state ns"
  shows
   "(hasattr ns name \<longleftrightarrow>
       name \<in> set (map fst import_attributes) \<union> set (map fst config_module)
              \<union> set module_type_attributes) \<and>
    (\<not> hasattr ns name \<longrightarrow> set_parameter ns name v = Inr (False, ns)) \<and>
    (hasattr ns name \<and> name \<noteq> ''__class__'' \<and> name \<noteq> ''__dict__'' \<longrightarrow>
       set_parameter ns name v = Inr (True, ns(name \<mapsto> v))) \<and>
    (name \<in> set (map fst config_module) \<longrightarrow>
       set_parameter ns name v = Inr (True, ns(name \<mapsto> v))) \<and>
    set_parameter ns ''__class__'' v = Inl TypeError \<and>
    set_parameter ns ''__dict__'' v = Inl AttributeError \<and>
    ''GRID_SIZE'' \<in> set (map fst config_module) \<and>
    (\<forall>cfg g. read_config ns = Some cfg \<longrightarrow>
       set_parameter ns ''GRID_SIZE'' (PyInt g) = Inr (True, ns(''GRID_SIZE'' \<mapsto> PyInt g)) \<and>
       read_config (ns(''GRID_SIZE'' \<mapsto> PyInt g)) = Some (cfg\<lparr>GRID_SIZE := g\<rparr>))"
proof -
  note same = module_state_hasattr [OF assms]
  have names: "hasattr ns name \<longleftrightarrow>
       name \<in> set (map fst import_attributes) \<union> set (map fst config_module)
              \<union> set module_type_attributes"
    unfolding same by (rule hasattr_config_namespace)
  have bound: "hasattr ns n" if "n \<in> set (map fst config_module)" for n
    unfolding same hasattr_config_namespace using that by simp
  have no: "\<not> hasattr ns name \<longrightarrow> set_parameter ns name v = Inr (False, ns)"
    by (simp add: set_parameter_def)
  have yes: "hasattr ns name \<and> name \<noteq> ''__class__'' \<and> name \<noteq> ''__dict__'' \<longrightarrow>
       set_parameter ns name v = Inr (True, ns(name \<mapsto> v))"
    by (simp add: set_parameter_def setattr_def)
  have cm: "name \<in> set (map fst config_module) \<longrightarrow>
       set_parameter ns name v = Inr (True, ns(name \<mapsto> v))"
    using bound [of name] config_module_names [of name]
    by (simp add: set_parameter_def setattr_def)
  have "hasattr ns ''__class__''" "hasattr ns ''__dict__''"
    by (simp_all add: hasattr_def module_type_attributes_def)
  then have cl: "set_parameter ns ''__class__'' v = Inl TypeError"
    and di: "set_parameter ns ''__dict__'' v = Inl AttributeError"
    by (simp_all add: set_parameter_def setattr_def)
  have gs: "''GRID_SIZE'' \<in> set (map fst config_module)"
    by (simp add: config_module_def)
  have eng: "\<forall>cfg g. read_config ns = Some cfg \<longrightarrow>
       set_parameter ns ''GRID_SIZE'' (PyInt g) = Inr (True, ns(''GRID_SIZE'' \<mapsto> PyInt g)) \<and>
       read_config (ns(''GRID_SIZE'' \<mapsto> PyInt g)) = Some (cfg\<lparr>GRID_SIZE := g\<rparr>)"
    using bound [OF gs] read_config_grid_size
    by (simp add: set_parameter_def setattr_def)
  from names no yes cm cl di gs eng show ?thesis by (intro conjI)
qed

theorem C9_set_parameter_witness:
  "set_parameter config_namespace ''NO_SUCH_PARAMETER'' (PyInt 1) = Inr (False, config_namespace) \<and>
   set_parameter config_namespace ''C_THRESH'' (PyFloat 0.3)
     = Inr (True, config_namespace(''C_THRESH'' \<mapsto> PyFloat 0.3)) \<and>
   (config_namespace(''C_THRESH'' \<mapsto> PyFloat 0.3)) ''TAU_TEMP'' = Some (PyInt 8) \<and>
   set_parameter (config_namespace(''C_THRESH'' \<mapsto> PyFloat 0.3)) ''__doc__'' (PyStr ''text'')
     = Inr (True, config_namespace(''C_THRESH'' \<mapsto> PyFloat 0.3, ''__doc__'' \<mapsto> PyStr ''text'')) \<and>
   set_parameter config_namespace ''__class__'' (PyInt 1) = Inl TypeError \<and>
   set_parameter config_namespace ''__dict__'' (PyInt 1) = Inl AttributeError \<and>
   set_parameter config_namespace ''GRID_SIZE'' (PyInt 50)
     = Inr (True, config_namespace(''GRID_SIZE'' \<mapsto> PyInt 50)) \<and>
   read_config (config_namespace(''GRID_SIZE'' \<mapsto> PyInt 50))
     = Some (default_config\<lparr>GRID_SIZE := 50\<rparr>)"
proof -
  note c9 = C9_set_parameter [OF module_state.imported]
  have m: "''C_THRESH'' \<in> set (map fst config_module)"
    by (simp add: config_module_def)
  have u: "''NO_SUCH_PARAMETER'' \<notin> set (map fst import_attributes) \<union> set (map fst config_module)
              \<union> set module_type_attributes"
    by (simp add: import_attributes_def config_module_def module_type_attributes_def)
  from c9 [of "''NO_SUCH_PARAMETER''" "PyInt 1"] u
  have 1: "set_parameter config_namespace ''NO_SUCH_PARAMETER'' (PyInt 1)
             = Inr (False, config_namespace)"
    by blast
  from c9 [of "''C_THRESH''" "PyFloat 0.3"] m
  have 2: "set_parameter config_namespace ''C_THRESH'' (PyFloat 0.3)
             = Inr (True, config_namespace(''C_THRESH'' \<mapsto> PyFloat 0.3))"
    by blast
  have 3: "(config_namespace(''C_THRESH'' \<mapsto> PyFloat 0.3)) ''TAU_TEMP'' = Some (PyInt 8)"
    by (simp add: config_namespace_def import_attributes_def config_module_def)
  have st: "module_state (config_namespace(''C_THRESH'' \<mapsto> PyFloat 0.3))"
    using module_state.imported 2 by (rule module_state.parameter_set)
  have d: "''__doc__'' \<in> set (map fst import_attributes) \<union> set (map fst config_module)
              \<union> set module_type_attributes"
    by (simp add: import_attributes_def)
  from C9_set_parameter [OF st, of "''__doc__''" "PyStr ''text''"] d
  have 4: "set_parameter (config_namespace(''C_THRESH'' \<mapsto> PyFloat 0.3)) ''__doc__'' (PyStr ''text'')
     = Inr (True, config_namespace(''C_THRESH'' \<mapsto> PyFloat 0.3, ''__doc__'' \<mapsto> PyStr ''text''))"
    by simp
  from c9 [of "''x''" "PyInt 1"]
  have 5: "set_parameter config_namespace ''__class__'' (PyInt 1) = Inl TypeError"
    and 6: "set_parameter config_namespace ''__dict__'' (PyInt 1) = Inl AttributeError"
    by blast+
  from c9 [of "''x''" "PyInt 1"] read_config_imported
  have 7: "set_parameter config_namespace ''GRID_SIZE'' (PyInt 50)
     = Inr (True, config_namespace(''GRID_SIZE'' \<mapsto> PyInt 50))"
    and 8: "read_config (config_namespace(''GRID_SIZE'' \<mapsto> PyInt 50))
     = Some (default_config\<lparr>GRID_SIZE := 50\<rparr>)"
    by blast+
  from 1 2 3 4 5 6 7 8 show ?thesis by (intro conjI)
qed

text \<open>
  C9 as claimed says that the grid size cannot be updated through \<^verbatim>\<open>set_parameter\<close> and
  that the recognised names are the engine parameters. On the module as imported,
  \<^verbatim>\<open>set_parameter("GRID_SIZE", 50)\<close> returns true and the grid size the engine reads
  changes from 100 to 50; \<open>REDIS_URL\<close> and \<^verbatim>\<open>__name__\<close>, which are no engine
  parameters, are recognised and rebound as well.
\<close>

theorem C9_grid_size_is_updated:
  "read_config config_namespace = Some default_config \<and>
   GRID_SIZE default_config = 100 \<and>
   set_parameter config_namespace ''GRID_SIZE'' (PyInt 50)
     = Inr (True, config_namespace(''GRID_SIZE'' \<mapsto> PyInt 50)) \<and>
   read_config (config_namespace(''GRID_SIZE'' \<mapsto> PyInt 50))
     = Some (default_config\<lparr>GRID_SIZE := 50\<rparr>) \<and>
   set_parameter config_namespace ''REDIS_URL'' (PyStr ''x'')
     = Inr (True, config_namespace(''REDIS_URL'' \<mapsto> PyStr ''x'')) \<and>
   set_parameter config_namespace ''__name__'' (PyInt 0)
     = Inr (True, config_namespace(''__name__'' \<mapsto> PyInt 0))"
proof -
  have h: "hasattr config_namespace ''GRID_SIZE''" "hasattr config_namespace ''REDIS_URL''"
    "hasattr config_namespace ''__name__''"
    by (simp_all add: hasattr_config_namespace config_module_def import_attributes_def)
  then have "set_parameter config_namespace ''GRID_SIZE'' (PyInt 50)
     = Inr (True, config_namespace(''GRID_SIZE'' \<mapsto> PyInt 50))"
    and "set_parameter config_namespace ''REDIS_URL'' (PyStr ''x'')
     = Inr (True, config_namespace(''REDIS_URL'' \<mapsto> PyStr ''x''))"
    and "set_parameter config_namespace ''__name__'' (PyInt 0)
     = Inr (True, config_namespace(''__name__'' \<mapsto> PyInt 0))"
    by (simp_all add: set_parameter_def setattr_def)
  moreover have "GRID_SIZE default_config = 100" by (simp add: default_config_def)
  moreover note read_config_imported read_config_grid_size [OF read_config_imported, of 50]
  ultimately show ?thesis by (intro conjI)
qed

subsection \<open>The bloom counters (C10)\<close>

text \<open>
  C10 (bloom counters). In every reachable state the simulation's \<open>total_blooms\<close>
  counter equals the length of \<open>bloom_locations\<close> and equals the sum of the cores'
  \<open>total_blooms\<close> counters; every \<^verbatim>\<open>step\<close> that returns preserves the equalities,
  and every \<^verbatim>\<open>reset\<close> that returns establishes them.
\<close>

theorem C10_bloom_counters_agree:
  "(reachable R s \<longrightarrow> blooms_consistent s) \<and>
   (blooms_consistent s \<and> step R cfg s = Some (Inr (s', st)) \<longrightarrow> blooms_consistent s') \<and>
   (reset R cfg now s = Some (Inr s'') \<longrightarrow> blooms_consistent s'')"
proof (intro conjI impI)
  assume "reachable R s"
  then show "blooms_consistent s"
  proof (induction rule: reachable.induct)
    case (constructed cfg seed_arg now s)
    then show ?case by (auto simp: construct_def Let_def intro: reset_blooms_consistent)
  next
    case (stepped s cfg s' st)
    then show ?case using step_blooms_consistent by blast
  next
    case (was_reset s cfg now s')
    then show ?case using reset_blooms_consistent by blast
  qed
next
  assume "blooms_consistent s \<and> step R cfg s = Some (Inr (s', st))"
  then show "blooms_consistent s'" using step_blooms_consistent by blast
next
  assume "reset R cfg now s = Some (Inr s'')"
  then show "blooms_consistent s''" by (rule reset_blooms_consistent)
qed

theorem C10_bloom_counters_agree_witness:
  "blooms_consistent small_world \<and>
   blooms_consistent bloom_world \<and>
   step counter_rng small_config bloom_world =
     Some (Inr (bloom_world_next,
       \<lparr> stats_tick = 2, stats_emit_mode = True, blooms_this_tick = 1,
         stats_total_blooms = 1, total_catalyst = 1 \<rparr>)) \<and>
   blooms_consistent bloom_world_next \<and>
   sim_total_blooms bloom_world_next = 1 \<and>
   (\<exists>s'. reset counter_rng small_config 0 small_world = Some (Inr s') \<and> blooms_consistent s')"
proof -
  let ?st = "\<lparr> stats_tick = 2, stats_emit_mode = True, blooms_this_tick = 1,
         stats_total_blooms = 1, total_catalyst = 1 \<rparr>"
  have reach: "reachable counter_rng small_world"
    using construct_small_world by (rule reachable.constructed)
  have b0: "blooms_consistent bloom_world"
    by (simp add: blooms_consistent_def bloom_world_def Core_def)
  obtain s' where r: "reset counter_rng small_config 0 small_world = Some (Inr s')"
    using reset_small_world_returns by blast
  note c10 = C10_bloom_counters_agree
  have 1: "blooms_consistent small_world"
    using c10 [of counter_rng small_world small_config small_world ?st 0 small_world] reach
    by blast
  have 2: "blooms_consistent bloom_world_next"
    using c10 [of counter_rng bloom_world small_config bloom_world_next ?st 0 bloom_world]
      b0 step_bloom_world by blast
  have 3: "blooms_consistent s'"
    using c10 [of counter_rng small_world small_config small_world ?st 0 s'] r by blast
  have 4: "sim_total_blooms bloom_world_next = 1" by (simp add: bloom_world_next_def)
  from 1 b0 step_bloom_world 2 4 3 r show ?thesis by blast
qed

end
